theory Spec2Isabelle
  imports Main
begin

chapter \<open>The model of the program\<close>

text \<open>
  The definitions of this chapter follow \<open>src/main.ts\<close>: the canonicalizer of LaTeX
  delimiters, the OCR extraction, the saving of the images, the formatting and the
  pipeline. Functions of the platform and of the collaborators (the Mistral client, the
  vault of the host, the completion service) are parameters that give the outcome of each
  call. Notices and the status bar are not modelled.
\<close>

section \<open>JavaScript strings\<close>

text \<open>
  A JavaScript string is a sequence of UTF-16 code units. A code unit is modelled by its
  number (below 65536 for every string the program can hold); no function below does
  arithmetic on code units, they are only compared. ASCII text is written with \<open>str\<close>.
\<close>

type_synonym jschar = nat

type_synonym jsstring = "jschar list"

definition str :: "string \<Rightarrow> jsstring" where
  "str s = map of_char s"

abbreviation bsl :: jschar where "bsl \<equiv> 92"

abbreviation nl :: jschar where "nl \<equiv> 10"

text \<open>
  The characters matched by \<open>\s\<close> in a regular expression, which are also the characters
  removed by \<open>String.prototype.trim\<close>: WhiteSpace (TAB, VT, FF, SP, NBSP, ZWNBSP and the
  Unicode space separators) and LineTerminator (LF, CR, LS, PS).
\<close>

definition is_line_terminator :: "jschar \<Rightarrow> bool" where
  "is_line_terminator c = (c = 0x0A \<or> c = 0x0D \<or> c = 0x2028 \<or> c = 0x2029)"

definition is_space :: "jschar \<Rightarrow> bool" where
  "is_space c =
    (c = 0x09 \<or> c = 0x0B \<or> c = 0x0C \<or> c = 0x20 \<or> c = 0xA0 \<or> c = 0x1680 \<or>
     (0x2000 \<le> c \<and> c \<le> 0x200A) \<or> c = 0x202F \<or> c = 0x205F \<or> c = 0x3000 \<or>
     c = 0xFEFF \<or> is_line_terminator c)"

text \<open>The dot of a regular expression without the \<open>s\<close> flag.\<close>

definition dot :: "jschar \<Rightarrow> bool" where
  "dot c = (\<not> is_line_terminator c)"

text \<open>The class \<open>[\s\S]\<close>: every code unit.\<close>

definition any_char :: "jschar \<Rightarrow> bool" where
  "any_char c = True"

definition is_digit :: "jschar \<Rightarrow> bool" where
  "is_digit c = (48 \<le> c \<and> c \<le> 57)"

definition trim :: "jsstring \<Rightarrow> jsstring" where
  "trim s = rev (dropWhile is_space (rev (dropWhile is_space s)))"

definition startsWith :: "jsstring \<Rightarrow> jsstring \<Rightarrow> bool" where
  "startsWith s p = (take (length p) s = p)"

text \<open>
  \<open>s.split(sep)\<close> for a separator of one code unit: the pieces between the separators,
  in order; a string without the separator gives the one-element list.
\<close>

fun split_acc :: "jschar \<Rightarrow> jsstring \<Rightarrow> jsstring \<Rightarrow> jsstring list" where
  "split_acc sep cur [] = [cur]"
| "split_acc sep cur (c # cs) =
     (if c = sep then cur # split_acc sep [] cs else split_acc sep (cur @ [c]) cs)"

definition split :: "jsstring \<Rightarrow> jschar \<Rightarrow> jsstring list" where
  "split s sep = split_acc sep [] s"

text \<open>
  Indexing an array: \<open>xs[i]\<close> is \<open>undefined\<close> out of range.
\<close>

definition at_index :: "'a list \<Rightarrow> nat \<Rightarrow> 'a option" where
  "at_index xs i = (if i < length xs then Some (xs ! i) else None)"

section \<open>Regular expressions\<close>

text \<open>
  The regular expressions of the program are sequences of four kinds of items: one
  character of a class (a literal is the class of one character), a greedy star over a
  class (\<open>\s*\<close>), a lazy star over a class (\<open>[\s\S]*?\<close>, \<open>.*?\<close>) and the end
  anchor \<open>$\<close>. Every pattern has at most one lazy star, and where the pattern has a
  capture group, the group is exactly that lazy star: the matcher returns the text the
  lazy star consumed as capture group 1.

  \<open>rmatch\<close> is the backtracking matcher of ECMAScript at one start position: a greedy
  star first tries to take one more character and gives it back when the rest of the
  pattern fails; a lazy star first tries the rest of the pattern and takes one more
  character when that fails. The result is the capture and the input left after the match.
\<close>

datatype atom =
    One "jschar \<Rightarrow> bool"
  | Greedy "jschar \<Rightarrow> bool"
  | Lazy "jschar \<Rightarrow> bool"
  | Eoi

fun rmatch :: "atom list \<Rightarrow> jsstring \<Rightarrow> jsstring \<Rightarrow> (jsstring \<times> jsstring) option" where
  "rmatch [] s cap = Some (cap, s)"
| "rmatch (One P # as) [] cap = None"
| "rmatch (One P # as) (c # cs) cap = (if P c then rmatch as cs cap else None)"
| "rmatch (Greedy P # as) [] cap = rmatch as [] cap"
| "rmatch (Greedy P # as) (c # cs) cap =
     (if P c then
        (case rmatch (Greedy P # as) cs cap of
           Some r \<Rightarrow> Some r
         | None \<Rightarrow> rmatch as (c # cs) cap)
      else rmatch as (c # cs) cap)"
| "rmatch (Lazy P # as) [] cap = rmatch as [] cap"
| "rmatch (Lazy P # as) (c # cs) cap =
     (case rmatch as (c # cs) cap of
        Some r \<Rightarrow> Some r
      | None \<Rightarrow> if P c then rmatch (Lazy P # as) cs (cap @ [c]) else None)"
| "rmatch (Eoi # as) [] cap = rmatch as [] cap"
| "rmatch (Eoi # as) (c # cs) cap = None"

definition lit :: "char \<Rightarrow> atom" where
  "lit ch = One (\<lambda>c. c = of_char ch)"

text \<open>A letter under the flag \<open>i\<close>: either case (given in lower case).\<close>

definition lit_i :: "char \<Rightarrow> atom" where
  "lit_i ch = One (\<lambda>c. c = of_char ch \<or> c + 32 = of_char ch)"

text \<open>
  \<open>s.replace(re, f)\<close> for a regular expression with the flag \<open>g\<close> and a replacer
  function \<open>f\<close> of the capture: the matches are searched from left to right, each
  search starting where the previous match ended (one character further after an empty
  match), and the text between the matches is kept.
\<close>

function replace_all :: "atom list \<Rightarrow> (jsstring \<Rightarrow> jsstring) \<Rightarrow> jsstring \<Rightarrow> jsstring" where
  "replace_all re f [] = (case rmatch re [] [] of Some (cap, r) \<Rightarrow> f cap | None \<Rightarrow> [])"
| "replace_all re f (c # cs) =
     (case rmatch re (c # cs) [] of
        None \<Rightarrow> c # replace_all re f cs
      | Some (cap, rest) \<Rightarrow>
          if length rest < length (c # cs) then f cap @ replace_all re f rest
          else f cap @ c # replace_all re f cs)"
  by pat_completeness auto

termination
  by (relation "measure (\<lambda>(re, f, s). length s)") auto

text \<open>
  \<open>s.replace(re, f)\<close> without the flag \<open>g\<close>: only the leftmost match is replaced.
\<close>

fun replace_first :: "atom list \<Rightarrow> (jsstring \<Rightarrow> jsstring) \<Rightarrow> jsstring \<Rightarrow> jsstring" where
  "replace_first re f [] = (case rmatch re [] [] of Some (cap, r) \<Rightarrow> f cap | None \<Rightarrow> [])"
| "replace_first re f (c # cs) =
     (case rmatch re (c # cs) [] of
        None \<Rightarrow> c # replace_first re f cs
      | Some (cap, rest) \<Rightarrow> f cap @ rest)"

text \<open>
  The same for a pattern that begins with \<open>^\<close> (no flag \<open>m\<close>): the anchor holds at
  index 0 only, so the search can succeed at index 0 only.
\<close>

definition replace_at_start :: "atom list \<Rightarrow> (jsstring \<Rightarrow> jsstring) \<Rightarrow> jsstring \<Rightarrow> jsstring" where
  "replace_at_start re f s =
     (case rmatch re s [] of Some (cap, rest) \<Rightarrow> f cap @ rest | None \<Rightarrow> s)"

section \<open>The LaTeX delimiter canonicalizer\<close>

text \<open>
  \<open>cleanLatexDelimiters\<close> (main.ts, lines 382 to 400). The four rewrites, in the
  order of the source:
  \<^item> \<open>/\u00A0/g\<close> to a space;
  \<^item> \<open>/[\u2000-\u200B\u202F\u205F\u3000]/g\<close> to a space;
  \<^item> \<open>/\\\[\s*([\s\S]*?)\s*\\\]/g\<close> to \<open>$$\n\<close> + trimmed capture + \<open>\n$$\<close>;
  \<^item> \<open>/\\\(\s*(.*?)\s*\\\)/g\<close> to \<open>$\<close> + trimmed capture + \<open>$\<close>.
\<close>

definition nbsp_re :: "atom list" where
  "nbsp_re = [One (\<lambda>c. c = 0xA0)]"

definition odd_space :: "jschar \<Rightarrow> bool" where
  "odd_space c = ((0x2000 \<le> c \<and> c \<le> 0x200B) \<or> c = 0x202F \<or> c = 0x205F \<or> c = 0x3000)"

definition odd_space_re :: "atom list" where
  "odd_space_re = [One odd_space]"

definition block_re :: "atom list" where
  "block_re = [One (\<lambda>c. c = bsl), lit CHR ''['', Greedy is_space, Lazy any_char,
               Greedy is_space, One (\<lambda>c. c = bsl), lit CHR '']'']"

definition inline_re :: "atom list" where
  "inline_re = [One (\<lambda>c. c = bsl), lit CHR ''('', Greedy is_space, Lazy dot,
                Greedy is_space, One (\<lambda>c. c = bsl), lit CHR '')'']"

definition block_repl :: "jsstring \<Rightarrow> jsstring" where
  "block_repl content = str ''$$'' @ [nl] @ trim content @ [nl] @ str ''$$''"

definition inline_repl :: "jsstring \<Rightarrow> jsstring" where
  "inline_repl content = str ''$'' @ trim content @ str ''$''"

definition cleanLatexDelimiters :: "jsstring \<Rightarrow> jsstring" where
  "cleanLatexDelimiters text0 =
     (if text0 = [] then text0
      else
        let text1 = replace_all nbsp_re (\<lambda>_. str '' '') text0;
            text2 = replace_all odd_space_re (\<lambda>_. str '' '') text1;
            text3 = replace_all block_re block_repl text2;
            text4 = replace_all inline_re inline_repl text3
        in text4)"

section \<open>Errors, settings and objects\<close>

text \<open>
  A thrown value is an \<open>Error\<close> with its message. A function that can throw returns
  \<open>jserror + 'a\<close>, with \<open>Inl\<close> for the exception.
\<close>

datatype jserror = Error jsstring

fun message :: "jserror \<Rightarrow> jsstring" where
  "message (Error m) = m"

datatype save_location = Cursor | InFile

record AIOcrSettings =
  mistralApiKey :: jsstring
  language :: jsstring
  saveLocation :: save_location
  defaultPreset :: jsstring
  openRouterApiKey :: jsstring
  openRouterModel :: jsstring
  extractImages :: bool
  imageSubfolder :: jsstring

definition DEFAULT_SETTINGS :: AIOcrSettings where
  "DEFAULT_SETTINGS =
     \<lparr>mistralApiKey = [], language = str ''German'', saveLocation = Cursor,
      defaultPreset = str ''Academic Blue'', openRouterApiKey = [],
      openRouterModel = str ''google/gemini-2.0-flash-exp:free'',
      extractImages = True, imageSubfolder = str ''assets''\<rparr>"

text \<open>
  An object used as a mapping from strings (\<open>{ [id: string]: string }\<close>) is the list
  of its own properties in the order of their creation, each key once.

  \<open>obj_set\<close> is the assignment \<open>obj[k] = v\<close> of a string \<open>v\<close>: the value of an
  own property is replaced, and a new property is added at the end. For the key
  \<open>__proto__\<close>, when it is not an own property, the assignment reaches the setter of
  \<open>Object.prototype\<close>, which ignores a value that is not an object: nothing is stored.

  \<open>Object.entries\<close> and \<open>Object.keys\<close> list the own properties: first those whose
  key is an array index (the decimal numeral, without leading zero, of a number below
  \<open>2^32 - 1\<close>) in ascending order of the numbers, then the others in the order of
  their creation.
\<close>

type_synonym jsobject = "(jsstring \<times> jsstring) list"

fun obj_set :: "jsobject \<Rightarrow> jsstring \<Rightarrow> jsstring \<Rightarrow> jsobject" where
  "obj_set [] k v = (if k = str ''__proto__'' then [] else [(k, v)])"
| "obj_set ((k', v') # kvs) k v =
     (if k' = k then (k, v) # kvs else (k', v') # obj_set kvs k v)"

definition decimal_value :: "jsstring \<Rightarrow> nat" where
  "decimal_value k = foldl (\<lambda>n c. 10 * n + (c - 48)) 0 k"

definition is_array_index :: "jsstring \<Rightarrow> bool" where
  "is_array_index k =
     (k \<noteq> [] \<and> list_all is_digit k \<and> (length k = 1 \<or> hd k \<noteq> 48) \<and>
      decimal_value k < 4294967295)"

definition Object_entries :: "jsobject \<Rightarrow> (jsstring \<times> jsstring) list" where
  "Object_entries obj =
     sort_key (\<lambda>entry. decimal_value (fst entry))
       (filter (\<lambda>entry. is_array_index (fst entry)) obj) @
     filter (\<lambda>entry. \<not> is_array_index (fst entry)) obj"

definition Object_keys :: "jsobject \<Rightarrow> jsstring list" where
  "Object_keys obj = map fst (Object_entries obj)"

text \<open>The value of \<open>a || b\<close> for an optional string \<open>a\<close>: \<open>b\<close> when \<open>a\<close> is
  \<open>undefined\<close>, \<open>null\<close> or empty.\<close>

fun or_else :: "jsstring option \<Rightarrow> jsstring \<Rightarrow> jsstring" where
  "or_else None b = b"
| "or_else (Some a) b = (if a = [] then b else a)"

section \<open>OCR extraction\<close>

text \<open>
  The reply of \<open>client.ocr.process\<close>: pages with an optional markdown text and an
  optional list of images, each image with its id and an optional base64 payload.
\<close>

record ocr_image =
  img_id :: jsstring
  imageBase64 :: "jsstring option"

record ocr_page =
  page_markdown :: "jsstring option"
  page_images :: "ocr_image list option"

record ocr_response =
  pages :: "ocr_page list option"

record OCRResult =
  markdown :: jsstring
  images :: jsobject

text \<open>
  The Mistral client and the platform functions used by \<open>performMistralOCR\<close>, as the
  outcomes of their calls: \<open>atob\<close> (which throws on text that is not base64),
  \<open>Date.now()\<close> as decimal digits, and the three remote calls. The upload answers
  with the id of the uploaded file (\<open>None\<close>: no file or no id in the answer), the
  second call with the signed URL, the third with the OCR reply (\<open>None\<close>: a null
  reply).
\<close>

record mistral_sdk =
  atob :: "jsstring \<Rightarrow> jserror + jsstring"
  now :: jsstring
  files_upload :: "jsstring \<Rightarrow> jsstring \<Rightarrow> jserror + jsstring option"
  files_getSignedUrl :: "jsstring \<Rightarrow> jserror + jsstring"
  ocr_process :: "jsstring \<Rightarrow> bool \<Rightarrow> jserror + ocr_response option"

text \<open>The network operations a run issues, in order.\<close>

datatype net_call =
    FilesUpload jsstring
  | FilesGetSignedUrl jsstring
  | OcrProcess jsstring bool

definition page_separator :: jsstring where
  "page_separator = [nl, nl] @ str ''---'' @ [nl, nl]"

text \<open>
  Lines 211 to 216: the payload of an image after \<open>image.imageBase64 || ""\<close> and the
  removal of a data URL prefix; \<open>None\<close> is \<open>undefined\<close> (\<open>split(",")[1]\<close> on a
  text without comma).
\<close>

definition image_payload :: "ocr_image \<Rightarrow> jsstring option" where
  "image_payload img =
     (let base64Data = (case imageBase64 img of Some b \<Rightarrow> b | None \<Rightarrow> [])
      in if startsWith base64Data (str ''data:'')
         then at_index (split base64Data 44) 1
         else Some base64Data)"

fun images_forEach :: "ocr_image list \<Rightarrow> jsobject \<Rightarrow> jsobject" where
  "images_forEach [] imgs = imgs"
| "images_forEach (img # rest) imgs =
     images_forEach rest
       (case image_payload img of
          Some base64Data \<Rightarrow>
            if base64Data \<noteq> [] then obj_set imgs (img_id img) base64Data else imgs
        | None \<Rightarrow> imgs)"

fun pages_forEach ::
  "AIOcrSettings \<Rightarrow> ocr_page list \<Rightarrow> nat \<Rightarrow> jsstring \<times> jsobject \<Rightarrow> jsstring \<times> jsobject" where
  "pages_forEach st [] index acc = acc"
| "pages_forEach st (page # rest) index (md, imgs) =
     (let md1 = (if index > 0 then md @ page_separator else md);
          md2 = md1 @ (case page_markdown page of Some m \<Rightarrow> m | None \<Rightarrow> []);
          imgs' =
            (case page_images page of
               Some page_imgs \<Rightarrow>
                 if extractImages st \<and> length page_imgs > 0
                 then images_forEach page_imgs imgs else imgs
             | None \<Rightarrow> imgs)
      in pages_forEach st rest (index + 1) (md2, imgs'))"

text \<open>Lines 198 to 224: step 5, from the OCR reply to the result.\<close>

definition parse_results :: "AIOcrSettings \<Rightarrow> ocr_response option \<Rightarrow> OCRResult" where
  "parse_results st ocrResponse =
     (let (md, imgs) =
        (case ocrResponse of
           Some r \<Rightarrow>
             (case pages r of
                Some ps \<Rightarrow> pages_forEach st ps 0 ([], [])
              | None \<Rightarrow> ([], []))
         | None \<Rightarrow> ([], []))
      in \<lparr>markdown = trim md, images = imgs\<rparr>)"

definition upload_name :: "mistral_sdk \<Rightarrow> jsstring \<Rightarrow> jsstring" where
  "upload_name sdk mimeType =
     (let ext = (case at_index (split mimeType 47) 1 of
                   Some e \<Rightarrow> if e = [] then str ''bin'' else e
                 | None \<Rightarrow> str ''bin'')
      in str ''upload-'' @ now sdk @ str ''.'' @ ext)"

definition mistral_failed :: "jserror \<Rightarrow> jserror" where
  "mistral_failed e = Error (str ''Mistral OCR Failed: '' @ message e)"

text \<open>
  \<open>performMistralOCR\<close> (main.ts, lines 144 to 230): the network operations issued and
  the result, or the error thrown. Every error of the \<open>try\<close> block is thrown again
  with the prefix of \<open>mistral_failed\<close>; the check of the API key stands before the
  \<open>try\<close>.
\<close>

definition performMistralOCR ::
  "AIOcrSettings \<Rightarrow> mistral_sdk \<Rightarrow> jsstring \<Rightarrow> jsstring \<Rightarrow> net_call list \<times> (jserror + OCRResult)" where
  "performMistralOCR st sdk base64Data mimeType =
     (if mistralApiKey st = [] then ([], Inl (Error (str ''Mistral API Key not configured'')))
      else
        let filename = upload_name sdk mimeType in
        case atob sdk base64Data of
          Inl e \<Rightarrow> ([], Inl (mistral_failed e))
        | Inr bytes \<Rightarrow>
            (case files_upload sdk filename bytes of
               Inl e \<Rightarrow> ([FilesUpload filename], Inl (mistral_failed e))
             | Inr uploadedFile \<Rightarrow>
                 if or_else uploadedFile [] = []
                 then ([FilesUpload filename],
                       Inl (mistral_failed (Error (str ''Failed to upload file to Mistral''))))
                 else
                   let fileId = or_else uploadedFile [] in
                   (case files_getSignedUrl sdk fileId of
                      Inl e \<Rightarrow>
                        ([FilesUpload filename, FilesGetSignedUrl fileId], Inl (mistral_failed e))
                    | Inr url \<Rightarrow>
                        (case ocr_process sdk url (extractImages st) of
                           Inl e \<Rightarrow>
                             ([FilesUpload filename, FilesGetSignedUrl fileId,
                               OcrProcess url (extractImages st)], Inl (mistral_failed e))
                         | Inr ocrResponse \<Rightarrow>
                             ([FilesUpload filename, FilesGetSignedUrl fileId,
                               OcrProcess url (extractImages st)],
                              Inr (parse_results st ocrResponse))))))"

section \<open>Saving the images\<close>

text \<open>
  The vault of the host application, as far as \<open>saveOCRImages\<close> uses it. \<open>'v\<close> is
  the state of the vault; an operation that changes it returns the new state and the
  error it threw, if any. \<open>getAbstractFileByPath\<close> answers with the kind of the entry
  at a path (\<open>None\<close> for \<open>null\<close>). \<open>base64ToArrayBuffer\<close> is the decoder of the
  host; it throws on text that is not base64.
\<close>

datatype abstract_file = TFile | TFolder

record 'v vault_api =
  getAbstractFileByPath :: "'v \<Rightarrow> jsstring \<Rightarrow> abstract_file option"
  createFolder :: "'v \<Rightarrow> jsstring \<Rightarrow> 'v \<times> jserror option"
  modifyBinary :: "'v \<Rightarrow> jsstring \<Rightarrow> jsstring \<Rightarrow> 'v \<times> jserror option"
  createBinary :: "'v \<Rightarrow> jsstring \<Rightarrow> jsstring \<Rightarrow> 'v \<times> jserror option"
  base64ToArrayBuffer :: "jsstring \<Rightarrow> jserror + jsstring"

text \<open>Lines 239 to 246: the target folder, created when it is not there.\<close>

definition target_folder :: "AIOcrSettings \<Rightarrow> jsstring \<Rightarrow> jsstring" where
  "target_folder st basePath =
     (if imageSubfolder st \<noteq> [] then basePath @ str ''/'' @ imageSubfolder st else basePath)"

definition make_folder ::
  "'v vault_api \<Rightarrow> AIOcrSettings \<Rightarrow> 'v \<Rightarrow> jsstring \<Rightarrow> 'v \<times> jserror option" where
  "make_folder api st v basePath =
     (if imageSubfolder st \<noteq> [] then
        (if getAbstractFileByPath api v (target_folder st basePath) = Some TFolder
         then (v, None)
         else createFolder api v (target_folder st basePath))
      else (v, None))"

text \<open>
  Lines 250 to 261, the body of the \<open>try\<close> for one image: the path written, or the
  error thrown by the decoder or by the vault.
\<close>

definition save_image ::
  "'v vault_api \<Rightarrow> jsstring \<Rightarrow> 'v \<Rightarrow> jsstring \<times> jsstring \<Rightarrow> 'v \<times> (jserror + jsstring)" where
  "save_image api targetFolder v entry =
     (let imageName = fst entry;
          base64Data = snd entry;
          imagePath = targetFolder @ str ''/'' @ imageName
      in case base64ToArrayBuffer api base64Data of
           Inl e \<Rightarrow> (v, Inl e)
         | Inr arrayBuffer \<Rightarrow>
             (case (if getAbstractFileByPath api v imagePath = Some TFile
                    then modifyBinary api v imagePath arrayBuffer
                    else createBinary api v imagePath arrayBuffer) of
                (v', Some e) \<Rightarrow> (v', Inl e)
              | (v', None) \<Rightarrow> (v', Inr imagePath)))"

text \<open>
  The loop over \<open>Object.entries(images)\<close>. The state is the vault, \<open>savedPaths\<close> and
  the errors written by \<open>console.error\<close>, each with the name of its image.
\<close>

fun save_loop ::
  "'v vault_api \<Rightarrow> jsstring \<Rightarrow> (jsstring \<times> jsstring) list \<Rightarrow>
   'v \<times> jsobject \<times> (jsstring \<times> jserror) list \<Rightarrow>
   'v \<times> jsobject \<times> (jsstring \<times> jserror) list" where
  "save_loop api targetFolder [] acc = acc"
| "save_loop api targetFolder (entry # rest) (v, savedPaths, console) =
     (case save_image api targetFolder v entry of
        (v', Inr imagePath) \<Rightarrow>
          save_loop api targetFolder rest (v', obj_set savedPaths (fst entry) imagePath, console)
      | (v', Inl e) \<Rightarrow>
          save_loop api targetFolder rest (v', savedPaths, console @ [(fst entry, e)]))"

text \<open>
  \<open>saveOCRImages\<close> (main.ts, lines 233 to 269): the vault afterwards, the errors
  logged, and the mapping returned or the error thrown.
\<close>

definition saveOCRImages ::
  "'v vault_api \<Rightarrow> AIOcrSettings \<Rightarrow> 'v \<Rightarrow> jsobject \<Rightarrow> jsstring \<Rightarrow>
   'v \<times> (jsstring \<times> jserror) list \<times> (jserror + jsobject)" where
  "saveOCRImages api st v imgs basePath =
     (if length (Object_keys imgs) = 0 then (v, [], Inr [])
      else
        case make_folder api st v basePath of
          (v0, Some e) \<Rightarrow> (v0, [], Inl e)
        | (v0, None) \<Rightarrow>
            (case save_loop api (target_folder st basePath) (Object_entries imgs) (v0, [], []) of
               (v1, savedPaths, console) \<Rightarrow> (v1, console, Inr savedPaths)))"

section \<open>JSON\<close>

datatype json =
    JNull
  | JBool bool
  | JNumber jsstring
  | JString jsstring
  | JArray "json list"
  | JObject "(jsstring \<times> json) list"

definition json_ws :: "jschar \<Rightarrow> bool" where
  "json_ws c = (c = 0x20 \<or> c = 0x09 \<or> c = 0x0A \<or> c = 0x0D)"

definition skip_ws :: "jsstring \<Rightarrow> jsstring" where
  "skip_ws s = dropWhile json_ws s"

definition is_hex :: "jschar \<Rightarrow> bool" where
  "is_hex c = (is_digit c \<or> (65 \<le> c \<and> c \<le> 70) \<or> (97 \<le> c \<and> c \<le> 102))"

definition hex_val :: "jschar \<Rightarrow> nat" where
  "hex_val c = (if is_digit c then c - 48 else if c \<le> 70 then c - 55 else c - 87)"

fun parse_string_body :: "jsstring \<Rightarrow> jsstring \<Rightarrow> (jsstring \<times> jsstring) option" where
  "parse_string_body acc [] = None"
| "parse_string_body acc (c # cs) =
     (if c = 34 then Some (acc, cs)
      else if c = 92 then
        (case cs of
           [] \<Rightarrow> None
         | e # r \<Rightarrow>
             if e = 34 \<or> e = 92 \<or> e = 47 then parse_string_body (acc @ [e]) r
             else if e = 98 then parse_string_body (acc @ [8]) r
             else if e = 102 then parse_string_body (acc @ [12]) r
             else if e = 110 then parse_string_body (acc @ [10]) r
             else if e = 114 then parse_string_body (acc @ [13]) r
             else if e = 116 then parse_string_body (acc @ [9]) r
             else if e = 117 then
               (case r of
                  h1 # h2 # h3 # h4 # r' \<Rightarrow>
                    if is_hex h1 \<and> is_hex h2 \<and> is_hex h3 \<and> is_hex h4
                    then parse_string_body
                           (acc @ [((hex_val h1 * 16 + hex_val h2) * 16 + hex_val h3) * 16 + hex_val h4]) r'
                    else None
                | _ \<Rightarrow> None)
             else None)
      else if c < 32 then None
      else parse_string_body (acc @ [c]) cs)"

definition parse_fraction :: "jsstring \<Rightarrow> (jsstring \<times> jsstring) option" where
  "parse_fraction s =
     (case s of
        [] \<Rightarrow> Some ([], s)
      | c # r \<Rightarrow>
          if c = 46 then
            (if takeWhile is_digit r = [] then None
             else Some (c # takeWhile is_digit r, dropWhile is_digit r))
          else Some ([], s))"

definition parse_exponent :: "jsstring \<Rightarrow> (jsstring \<times> jsstring) option" where
  "parse_exponent s =
     (case s of
        [] \<Rightarrow> Some ([], s)
      | c # r \<Rightarrow>
          if c = 101 \<or> c = 69 then
            (let sign = (case r of [] \<Rightarrow> [] | x # r' \<Rightarrow> if x = 43 \<or> x = 45 then [x] else []);
                 r1 = drop (length sign) r
             in if takeWhile is_digit r1 = [] then None
                else Some (c # sign @ takeWhile is_digit r1, dropWhile is_digit r1))
          else Some ([], s))"

definition parse_number :: "jsstring \<Rightarrow> (jsstring \<times> jsstring) option" where
  "parse_number s =
     (let sign = (case s of [] \<Rightarrow> [] | c # r \<Rightarrow> if c = 45 then [c] else []);
          s1 = drop (length sign) s;
          digits = takeWhile is_digit s1
      in if digits = [] \<or> (hd digits = 48 \<and> length digits > 1) then None
         else
           (case parse_fraction (dropWhile is_digit s1) of
              None \<Rightarrow> None
            | Some (frac, s2) \<Rightarrow>
                (case parse_exponent s2 of
                   None \<Rightarrow> None
                 | Some (ex, s3) \<Rightarrow> Some (sign @ digits @ frac @ ex, s3))))"

definition parse_literal :: "jsstring \<Rightarrow> (json \<times> jsstring) option" where
  "parse_literal s =
     (if startsWith s (str ''true'') then Some (JBool True, drop 4 s)
      else if startsWith s (str ''false'') then Some (JBool False, drop 5 s)
      else if startsWith s (str ''null'') then Some (JNull, drop 4 s)
      else None)"

function parse_value :: "jsstring \<Rightarrow> (json \<times> jsstring) option"
  and parse_elements :: "jsstring \<Rightarrow> json list \<Rightarrow> (json \<times> jsstring) option"
  and parse_members :: "jsstring \<Rightarrow> (jsstring \<times> json) list \<Rightarrow> (json \<times> jsstring) option" where
  "parse_value s =
     (case skip_ws s of
        [] \<Rightarrow> None
      | c # cs \<Rightarrow>
          if c = 123 then
            (case skip_ws cs of
               [] \<Rightarrow> None
             | d # ds \<Rightarrow> if d = 125 then Some (JObject [], ds) else parse_members cs [])
          else if c = 91 then
            (case skip_ws cs of
               [] \<Rightarrow> None
             | d # ds \<Rightarrow> if d = 93 then Some (JArray [], ds) else parse_elements cs [])
          else if c = 34 then
            (case parse_string_body [] cs of
               None \<Rightarrow> None
             | Some (t, r) \<Rightarrow> Some (JString t, r))
          else if c = 45 \<or> is_digit c then
            (case parse_number (c # cs) of
               None \<Rightarrow> None
             | Some (n, r) \<Rightarrow> Some (JNumber n, r))
          else parse_literal (c # cs))"
| "parse_elements s acc =
     (case parse_value s of
        None \<Rightarrow> None
      | Some (v, r) \<Rightarrow>
          if length r < length s then
            (case skip_ws r of
               [] \<Rightarrow> None
             | c # cs \<Rightarrow>
                 if c = 44 then parse_elements cs (acc @ [v])
                 else if c = 93 then Some (JArray (acc @ [v]), cs)
                 else None)
          else None)"
| "parse_members s acc =
     (case skip_ws s of
        [] \<Rightarrow> None
      | c # cs \<Rightarrow>
          if c = 34 then
            (case parse_string_body [] cs of
               None \<Rightarrow> None
             | Some (key, r) \<Rightarrow>
                 (case skip_ws r of
                    [] \<Rightarrow> None
                  | d # ds \<Rightarrow>
                      if d = 58 \<and> length ds < length s then
                        (case parse_value ds of
                           None \<Rightarrow> None
                         | Some (v, r') \<Rightarrow>
                             if length r' < length ds then
                               (case skip_ws r' of
                                  [] \<Rightarrow> None
                                | e # es \<Rightarrow>
                                    if e = 44 then parse_members es (acc @ [(key, v)])
                                    else if e = 125 then Some (JObject (acc @ [(key, v)]), es)
                                    else None)
                             else None)
                      else None))
          else None)"
  by pat_completeness auto

termination
proof -
  have shorter: "length cs < length s" if "skip_ws s = c # cs" for s c cs
    using that length_dropWhile_le [of json_ws s] by (simp add: skip_ws_def)
  show ?thesis
    by (relation "measure (\<lambda>x. case x of
          Inl s \<Rightarrow> 2 * length s
        | Inr (Inl (s, acc)) \<Rightarrow> 2 * length s + 1
        | Inr (Inr (s, acc)) \<Rightarrow> 2 * length s + 1)")
       (auto dest: shorter)
qed

declare parse_value.simps [simp del] parse_elements.simps [simp del]
  parse_members.simps [simp del]

definition JSON_parse :: "jsstring \<Rightarrow> jserror + json" where
  "JSON_parse s =
     (case parse_value s of
        None \<Rightarrow> Inl (Error (str ''SyntaxError''))
      | Some (v, r) \<Rightarrow> if skip_ws r = [] then Inr v else Inl (Error (str ''SyntaxError'')))"

text \<open>
  The schema of the structured output (main.ts, lines 52 to 55): an object with a
  string \<open>formatted_markdown\<close> and, if present, a number \<open>confidence_score\<close>. A
  name that occurs twice in a JSON object has its last value. A number is kept as the
  digits of its literal; \<open>formatText\<close> reads the string only.
\<close>

record FormattedResponse =
  formatted_markdown :: jsstring
  confidence_score :: "jsstring option"

definition json_get :: "(jsstring \<times> json) list \<Rightarrow> jsstring \<Rightarrow> json option" where
  "json_get members key = map_of (rev members) key"

definition FormattedResponseSchema_parse :: "json \<Rightarrow> jserror + FormattedResponse" where
  "FormattedResponseSchema_parse j =
     (case j of
        JObject members \<Rightarrow>
          (case json_get members (str ''formatted_markdown'') of
             Some (JString t) \<Rightarrow>
               (case json_get members (str ''confidence_score'') of
                  None \<Rightarrow> Inr \<lparr>formatted_markdown = t, confidence_score = None\<rparr>
                | Some (JNumber n) \<Rightarrow> Inr \<lparr>formatted_markdown = t, confidence_score = Some n\<rparr>
                | Some _ \<Rightarrow> Inl (Error (str ''ZodError'')))
           | _ \<Rightarrow> Inl (Error (str ''ZodError'')))
      | _ \<Rightarrow> Inl (Error (str ''ZodError'')))"

section \<open>Formatting\<close>

text \<open>
  The patterns of lines 323 and 325:
  \<open>/<think>[\s\S]*?<\/think>/gi\<close>, \<open>/^```json\s*/\<close>, \<open>/^```/\<close> and \<open>/```$/\<close>.
\<close>

definition think_re :: "atom list" where
  "think_re =
     [lit CHR ''<'', lit_i CHR ''t'', lit_i CHR ''h'', lit_i CHR ''i'', lit_i CHR ''n'',
      lit_i CHR ''k'', lit CHR ''>'', Lazy any_char,
      lit CHR ''<'', lit CHR ''/'', lit_i CHR ''t'', lit_i CHR ''h'', lit_i CHR ''i'',
      lit_i CHR ''n'', lit_i CHR ''k'', lit CHR ''>'']"

definition fence_json_re :: "atom list" where
  "fence_json_re =
     [lit CHR 0x60, lit CHR 0x60, lit CHR 0x60, lit CHR ''j'', lit CHR ''s'', lit CHR ''o'',
      lit CHR ''n'', Greedy is_space]"

definition fence_re :: "atom list" where
  "fence_re = [lit CHR 0x60, lit CHR 0x60, lit CHR 0x60]"

definition fence_end_re :: "atom list" where
  "fence_end_re = [lit CHR 0x60, lit CHR 0x60, lit CHR 0x60, Eoi]"

text \<open>Lines 323 and 325: the content without think block and code fence.\<close>

definition strip_wrappers :: "jsstring \<Rightarrow> jsstring" where
  "strip_wrappers content =
     (let content1 = trim (replace_all think_re (\<lambda>_. []) content)
      in replace_first fence_end_re (\<lambda>_. [])
           (replace_at_start fence_re (\<lambda>_. [])
              (replace_at_start fence_json_re (\<lambda>_. []) content1)))"

text \<open>
  Lines 321 to 349: what \<open>formatText\<close> returns for the content of a completion. The
  inner \<open>try\<close> holds \<open>JSON.parse\<close> and the validation by the schema; its \<open>catch\<close>
  returns the stripped content.
\<close>

definition formatText_response :: "jsstring \<Rightarrow> jsstring" where
  "formatText_response content0 =
     (let content = strip_wrappers content0
      in case JSON_parse content of
           Inl e \<Rightarrow> content
         | Inr parsedJson \<Rightarrow>
             (case FormattedResponseSchema_parse parsedJson of
                Inl e \<Rightarrow> content
              | Inr result \<Rightarrow> cleanLatexDelimiters (formatted_markdown result)))"

text \<open>
  The completion service. A fetcher answers with the text at
  \<open>response.json.choices[0].message.content\<close>; \<open>Inl\<close> stands for an exception of
  the call and also for a reply without a string at that place (the access throws
  inside the same \<open>try\<close>). The provider plugin, when present, gives its model and its
  fetcher; \<open>requestUrl\<close> is the direct call of \<open>localFetch\<close>;
  \<open>getPresetContent\<close> is the preset store; \<open>currentPreset\<close> is the field of the
  plugin.
\<close>

record chat_request =
  req_model :: jsstring
  req_system :: jsstring
  req_user :: jsstring

record provider_plugin =
  getModel :: jsstring
  fetchWithRetry :: "chat_request \<Rightarrow> jserror + jsstring"

record formatter_env =
  getProvider :: "provider_plugin option"
  requestUrl :: "chat_request \<Rightarrow> jserror + jsstring"
  getPresetContent :: "jsstring \<Rightarrow> jserror + jsstring option"
  currentPreset :: jsstring

definition ACADEMIC_BLUE_PROMPT :: jsstring where
  "ACADEMIC_BLUE_PROMPT =
     str ''You are an expert academic note formatter.'' @ [nl] @
     str ''Formatted markdown must be returned in JSON structure matching the schema.''"

definition zodInstruction :: jsstring where
  "zodInstruction =
     [nl] @ str ''        output should be valid JSON matching this schema:'' @
     [nl] @ str ''        {'' @
     [nl] @ str ''          '' @ [34] @ str ''formatted_markdown'' @ [34] @ str '': '' @ [34] @
       str ''string (The formatted content. Use Standard Markdown headers (#, ##). '' @
       str ''DO NOT use HTML tags like <details>, <summary>, or <div>. '' @
       str ''DO NOT repeat content. Use proper Callouts > [!...])'' @ [34] @ str '','' @
     [nl] @ str ''          '' @ [34] @ str ''confidence_score'' @ [34] @ str '': '' @ [34] @
       str ''number (0-1)'' @ [34] @
     [nl] @ str ''        }'' @
     [nl] @ str ''        Response MUST be pure JSON. Do not wrap in markdown code blocks.'' @
     [nl] @ str ''        ''"

text \<open>Lines 275 to 284: the model and the fetcher.\<close>

definition formatText_model :: "formatter_env \<Rightarrow> AIOcrSettings \<Rightarrow> jsstring option \<Rightarrow> jsstring" where
  "formatText_model env st modelOverride =
     (case getProvider env of
        Some provider \<Rightarrow> or_else modelOverride (getModel provider)
      | None \<Rightarrow> or_else modelOverride (openRouterModel st))"

definition localFetch :: "formatter_env \<Rightarrow> AIOcrSettings \<Rightarrow> chat_request \<Rightarrow> jserror + jsstring" where
  "localFetch env st options =
     (if openRouterApiKey st = []
      then Inl (Error (str ''API Key missing. Enable OpenRouter Provider OR set key in settings.''))
      else requestUrl env options)"

definition formatText_fetcher ::
  "formatter_env \<Rightarrow> AIOcrSettings \<Rightarrow> chat_request \<Rightarrow> jserror + jsstring" where
  "formatText_fetcher env st =
     (case getProvider env of
        Some provider \<Rightarrow> fetchWithRetry provider
      | None \<Rightarrow> localFetch env st)"

text \<open>Lines 290 to 309: the system prompt.\<close>

definition system_prompt :: "jsstring option \<Rightarrow> jsstring option \<Rightarrow> jsstring" where
  "system_prompt preset customInstruction =
     (let systemPrompt = or_else preset ACADEMIC_BLUE_PROMPT;
          systemPrompt' =
            (case customInstruction of
               Some ci \<Rightarrow>
                 if ci \<noteq> [] \<and> length (trim ci) > 0
                 then systemPrompt @ [nl, nl] @ str ''[USER CUSTOM INSTRUCTION]'' @ [nl] @ ci
                 else systemPrompt
             | None \<Rightarrow> systemPrompt)
      in systemPrompt' @ [nl, nl] @ zodInstruction)"

text \<open>
  \<open>formatText\<close> (main.ts, lines 272 to 356): the request given to the fetcher (none
  when reading the preset threw, which is outside the \<open>try\<close>) and the result:
  \<open>Inl\<close> for an exception that leaves the function, \<open>Inr None\<close> for \<open>null\<close>. The
  notices, the status bar and the editor argument, which only selects a notice, are
  left out.
\<close>

definition formatText ::
  "formatter_env \<Rightarrow> AIOcrSettings \<Rightarrow> jsstring \<Rightarrow> jsstring option \<Rightarrow> jsstring option \<Rightarrow>
   chat_request option \<times> (jserror + jsstring option)" where
  "formatText env st rawText modelOverride customInstruction =
     (let model = formatText_model env st modelOverride;
          presetName = or_else (Some (currentPreset env)) (defaultPreset st)
      in case getPresetContent env presetName of
           Inl e \<Rightarrow> (None, Inl e)
         | Inr preset \<Rightarrow>
             (let request =
                \<lparr>req_model = model,
                 req_system = system_prompt preset customInstruction,
                 req_user = str ''Format the following OCR text. Language: '' @ language st @
                            str ''.'' @ [nl, nl] @ str ''---'' @ [nl] @ rawText @ [nl] @ str ''---''\<rparr>
              in (Some request,
                  case formatText_fetcher env st request of
                    Inl e \<Rightarrow> Inr None
                  | Inr content \<Rightarrow> Inr (Some (formatText_response content)))))"

section \<open>The pipeline\<close>

text \<open>
  \<open>processImage\<close> (main.ts, lines 359 to 380). \<open>processImage_try\<close> is the \<open>try\<close>
  block with everything it did: the network operations of the extraction, the vault
  and the errors logged by \<open>saveOCRImages\<close>, the formatting request, and its value
  or the exception that reaches the \<open>catch\<close>. \<open>activePath\<close> is
  \<open>activeFile?.parent?.path\<close>.
\<close>

record 'v pipeline_run =
  net_calls :: "net_call list"
  vault_after :: 'v
  console_errors :: "(jsstring \<times> jserror) list"
  fetch_request :: "chat_request option"
  outcome :: "jserror + jsstring option"

definition processImage_try ::
  "mistral_sdk \<Rightarrow> 'v vault_api \<Rightarrow> formatter_env \<Rightarrow> AIOcrSettings \<Rightarrow> 'v \<Rightarrow> jsstring option \<Rightarrow>
   jsstring \<Rightarrow> jsstring \<Rightarrow> jsstring option \<Rightarrow> jsstring option \<Rightarrow> 'v pipeline_run" where
  "processImage_try sdk api env st v activePath base64Data mimeType modelOverride customInstruction =
     (case performMistralOCR st sdk base64Data mimeType of
        (calls, Inl e) \<Rightarrow>
          \<lparr>net_calls = calls, vault_after = v, console_errors = [], fetch_request = None,
           outcome = Inl e\<rparr>
      | (calls, Inr ocrResult) \<Rightarrow>
          if markdown ocrResult = [] then
            \<lparr>net_calls = calls, vault_after = v, console_errors = [], fetch_request = None,
             outcome = Inl (Error (str ''Empty OCR Result''))\<rparr>
          else
            (case (if length (Object_keys (images ocrResult)) > 0
                   then saveOCRImages api st v (images ocrResult) (or_else activePath [])
                   else (v, [], Inr [])) of
               (v1, console, Inl e) \<Rightarrow>
                 \<lparr>net_calls = calls, vault_after = v1, console_errors = console,
                  fetch_request = None, outcome = Inl e\<rparr>
             | (v1, console, Inr saved) \<Rightarrow>
                 (case formatText env st (markdown ocrResult) modelOverride customInstruction of
                    (request, formatted) \<Rightarrow>
                      \<lparr>net_calls = calls, vault_after = v1, console_errors = console,
                       fetch_request = request, outcome = formatted\<rparr>)))"

definition processImage ::
  "mistral_sdk \<Rightarrow> 'v vault_api \<Rightarrow> formatter_env \<Rightarrow> AIOcrSettings \<Rightarrow> 'v \<Rightarrow> jsstring option \<Rightarrow>
   jsstring \<Rightarrow> jsstring \<Rightarrow> jsstring option \<Rightarrow> jsstring option \<Rightarrow> jsstring option" where
  "processImage sdk api env st v activePath base64Data mimeType modelOverride customInstruction =
     (case outcome (processImage_try sdk api env st v activePath base64Data mimeType
                      modelOverride customInstruction) of
        Inl e \<Rightarrow> None
      | Inr formatted \<Rightarrow> formatted)"

chapter \<open>The vocabulary of the properties\<close>

section \<open>Occurrences of delimiters\<close>

text \<open>
  The predicates in which the properties of the canonicalizer are stated.
  \<open>has_pair x y s\<close>: the code unit \<open>x\<close> stands immediately before \<open>y\<close> somewhere
  in \<open>s\<close>. A delimiter is a backslash followed by a bracket:
  \<open>has_pair bsl lbracket s\<close> says that \<open>\[\<close> occurs in \<open>s\<close>.
\<close>

abbreviation lbracket :: jschar where "lbracket \<equiv> 91"

abbreviation rbracket :: jschar where "rbracket \<equiv> 93"

abbreviation lparen :: jschar where "lparen \<equiv> 40"

abbreviation rparen :: jschar where "rparen \<equiv> 41"

fun has_pair :: "jschar \<Rightarrow> jschar \<Rightarrow> jsstring \<Rightarrow> bool" where
  "has_pair x y (a # b # s) = ((a = x \<and> b = y) \<or> has_pair x y (b # s))"
| "has_pair x y s = False"

text \<open>
  \<open>has_span opn cls s\<close>: an opening delimiter (backslash, \<open>opn\<close>) occurs in \<open>s\<close>
  and a closing delimiter (backslash, \<open>cls\<close>) occurs after it.

  \<open>scrub\<close> is the text with the characters of the first two rewrites replaced by
  spaces, \<open>disallowed\<close> is the set of those characters, and a text is \<open>canonical\<close>
  when it has none of them and no pair of delimiters. \<open>delim_re\<close> is the common shape
  of the two delimiter patterns.
\<close>

definition scrub_char :: "jschar \<Rightarrow> jschar" where
  "scrub_char c = (if c = 0xA0 \<or> odd_space c then 0x20 else c)"

definition scrub :: "jsstring \<Rightarrow> jsstring" where
  "scrub s = map scrub_char s"

fun has_span :: "jschar \<Rightarrow> jschar \<Rightarrow> jsstring \<Rightarrow> bool" where
  "has_span opn cls (a # b # s) =
     ((a = bsl \<and> b = opn \<and> has_pair bsl cls s) \<or> has_span opn cls (b # s))"
| "has_span opn cls s = False"

definition delim_re :: "jschar \<Rightarrow> jschar \<Rightarrow> (jschar \<Rightarrow> bool) \<Rightarrow> atom list" where
  "delim_re opn cls D = [One (\<lambda>c. c = bsl), One (\<lambda>c. c = opn), Greedy is_space, Lazy D,
                         Greedy is_space, One (\<lambda>c. c = bsl), One (\<lambda>c. c = cls)]"

definition disallowed :: "jschar \<Rightarrow> bool" where
  "disallowed c = (c = 0xA0 \<or> odd_space c)"

definition canonical :: "jsstring \<Rightarrow> bool" where
  "canonical x = ((\<forall>c\<in>set x. \<not> disallowed c) \<and> \<not> has_span 91 93 x \<and> \<not> has_span 40 41 x)"

text \<open>
  The rewrite of the delimited parts of a text in the words of the specification.

  \<open>split_pair x y s\<close> cuts \<open>s\<close> at the first place where \<open>x\<close> stands immediately
  before \<open>y\<close>: it gives the text before that place and the text behind it.
  \<open>span_at opn cls s\<close> is defined when \<open>s\<close> begins with the opening delimiter and a
  closing delimiter follows: it gives the content, which ends at the first closing
  delimiter, and the text behind that closing delimiter.

  \<open>rewrite_spans opn cls ok wrap\<close> reads a text from left to right. Where a span
  begins whose trimmed content is \<open>ok\<close>, the span with its two delimiters is replaced
  by \<open>wrap\<close> of the trimmed content, and reading goes on behind the closing delimiter.
  Everywhere else the character is kept and reading goes on with the next character.
\<close>

fun split_pair :: "jschar \<Rightarrow> jschar \<Rightarrow> jsstring \<Rightarrow> (jsstring \<times> jsstring) option" where
  "split_pair x y (a # b # s) =
     (if a = x \<and> b = y then Some ([], s)
      else case split_pair x y (b # s) of
             Some (before, behind) \<Rightarrow> Some (a # before, behind)
           | None \<Rightarrow> None)"
| "split_pair x y s = None"

definition span_at :: "jschar \<Rightarrow> jschar \<Rightarrow> jsstring \<Rightarrow> (jsstring \<times> jsstring) option" where
  "span_at opn cls s =
     (case s of
        a # b # t \<Rightarrow> if a = bsl \<and> b = opn then split_pair bsl cls t else None
      | _ \<Rightarrow> None)"

function rewrite_spans ::
  "jschar \<Rightarrow> jschar \<Rightarrow> (jsstring \<Rightarrow> bool) \<Rightarrow> (jsstring \<Rightarrow> jsstring) \<Rightarrow> jsstring \<Rightarrow> jsstring" where
  "rewrite_spans opn cls ok wrap [] = []"
| "rewrite_spans opn cls ok wrap (c # s) =
     (case span_at opn cls (c # s) of
        None \<Rightarrow> c # rewrite_spans opn cls ok wrap s
      | Some (content, behind) \<Rightarrow>
          if ok (trim content) then wrap (trim content) @ rewrite_spans opn cls ok wrap behind
          else c # rewrite_spans opn cls ok wrap s)"
  by pat_completeness auto

termination
proof -
  have cut: "split_pair x y s = Some (m, r) \<Longrightarrow> length r < length s" for x y s m r
    by (induction x y s arbitrary: m rule: split_pair.induct)
       (auto split: if_splits option.splits)
  have "span_at opn cls (c # s) = Some (m, r) \<Longrightarrow> length r < Suc (length s)" for opn cls c s m r
    by (auto simp: span_at_def split: list.splits if_splits dest: cut)
  then show ?thesis
    by (relation "measure (\<lambda>(opn, cls, ok, wrap, s). length s)") auto
qed

text \<open>
  The two replacements, the condition on the content of an inline span, and the
  canonical form of a text as the specification describes it: the whitespace rewrites,
  then the blocks, then the inline spans.
\<close>

definition display_math :: "jsstring \<Rightarrow> jsstring" where
  "display_math content = str ''$$'' @ [nl] @ content @ [nl] @ str ''$$''"

definition inline_math :: "jsstring \<Rightarrow> jsstring" where
  "inline_math content = str ''$'' @ content @ str ''$''"

definition one_line :: "jsstring \<Rightarrow> bool" where
  "one_line content = list_all (\<lambda>c. \<not> is_line_terminator c) content"

definition rewrite_blocks :: "jsstring \<Rightarrow> jsstring" where
  "rewrite_blocks s = rewrite_spans 91 93 (\<lambda>content. True) display_math s"

definition rewrite_inline :: "jsstring \<Rightarrow> jsstring" where
  "rewrite_inline s = rewrite_spans 40 41 one_line inline_math s"

section \<open>Pages, images and their storing\<close>

text \<open>
  The join of the page texts in the words of the specification: the texts in order,
  with one separator between two consecutive pages.
\<close>

fun join_pages :: "jsstring list \<Rightarrow> jsstring" where
  "join_pages [] = []"
| "join_pages [p] = p"
| "join_pages (p # q # ps) = p @ page_separator @ join_pages (q # ps)"

definition page_text :: "ocr_page \<Rightarrow> jsstring" where
  "page_text page = (case page_markdown page of Some m \<Rightarrow> m | None \<Rightarrow> [])"

definition response_pages :: "ocr_response option \<Rightarrow> ocr_page list" where
  "response_pages ocrResponse =
     (case ocrResponse of
        Some r \<Rightarrow> (case pages r of Some ps \<Rightarrow> ps | None \<Rightarrow> [])
      | None \<Rightarrow> [])"

text \<open>The images of a reply, over all its pages.\<close>

definition response_images :: "ocr_response option \<Rightarrow> ocr_image list" where
  "response_images ocrResponse =
     concat (map (\<lambda>page. case page_images page of Some page_imgs \<Rightarrow> page_imgs | None \<Rightarrow> [])
                 (response_pages ocrResponse))"

text \<open>An image without usable payload, in the words of claim C10.\<close>

definition no_payload :: "ocr_image \<Rightarrow> bool" where
  "no_payload img =
     (case imageBase64 img of
        None \<Rightarrow> True
      | Some b \<Rightarrow> b = [] \<or> (startsWith b (str ''data:'') \<and> 44 \<notin> set b))"





section \<open>Collaborators for the examples\<close>

text \<open>A client for examples: every call succeeds, and the OCR reply has the given pages.\<close>

definition mock_sdk :: "ocr_page list \<Rightarrow> mistral_sdk" where
  "mock_sdk ps =
     \<lparr>atob = (\<lambda>s. Inr s), now = str ''0'',
      files_upload = (\<lambda>name content. Inr (Some (str ''file-1''))),
      files_getSignedUrl = (\<lambda>fileId. Inr (str ''https://signed'')),
      ocr_process = (\<lambda>url withImages. Inr (Some \<lparr>pages = Some ps\<rparr>))\<rparr>"

text \<open>
  A vault for examples: its state lists the paths, each with \<open>None\<close> for a folder or
  with the content of a file. Creating something at a path that is taken throws,
  writing into a file replaces its content, and the decoder throws on a text with an
  asterisk.
\<close>

definition mock_vault :: "(jsstring \<times> jsstring option) list vault_api" where
  "mock_vault =
     \<lparr>getAbstractFileByPath =
        (\<lambda>v p. case map_of v p of
                  None \<Rightarrow> None
                | Some None \<Rightarrow> Some TFolder
                | Some (Some content) \<Rightarrow> Some TFile),
      createFolder = (\<lambda>v p. if map_of v p = None then (v @ [(p, None)], None)
                             else (v, Some (Error (str ''Folder already exists.'')))),
      modifyBinary = (\<lambda>v p buf. (map (\<lambda>(q, e). if q = p then (q, Some buf) else (q, e)) v, None)),
      createBinary = (\<lambda>v p buf. if map_of v p = None then (v @ [(p, Some buf)], None)
                                 else (v, Some (Error (str ''File already exists.'')))),
      base64ToArrayBuffer = (\<lambda>b. if 42 \<in> set b then Inl (Error (str ''Invalid character''))
                                   else Inr b)\<rparr>"

text \<open>
  A completion service for examples: no provider plugin, no preset, and the direct
  call answers with the given content.
\<close>

definition mock_formatter :: "jsstring \<Rightarrow> formatter_env" where
  "mock_formatter content =
     \<lparr>getProvider = None, requestUrl = (\<lambda>options. Inr content),
      getPresetContent = (\<lambda>name. Inr None), currentPreset = []\<rparr>"

text \<open>A provider plugin with a model of its own.\<close>

definition mock_provider :: provider_plugin where
  "mock_provider = \<lparr>getModel = str ''provider/model'', fetchWithRetry = (\<lambda>options. Inr [])\<rparr>"

text \<open>
  A reply with five images: a data URL, an absent payload, an empty payload, a data URL
  without comma, and a plain payload.
\<close>

definition five_images :: "ocr_page list" where
  "five_images =
     [\<lparr>page_markdown = Some (str ''A''),
       page_images = Some
         [\<lparr>img_id = str ''a'', imageBase64 = Some (str ''data:image/png;base64,QUJD'')\<rparr>,
          \<lparr>img_id = str ''b'', imageBase64 = None\<rparr>,
          \<lparr>img_id = str ''c'', imageBase64 = Some []\<rparr>,
          \<lparr>img_id = str ''d'', imageBase64 = Some (str ''data:QUJD'')\<rparr>,
          \<lparr>img_id = str ''e'', imageBase64 = Some (str ''QUJD'')\<rparr>]\<rparr>]"




chapter \<open>Properties\<close>

section \<open>Properties of the matcher\<close>

lemma has_pair_append:
  "has_pair x y (a @ b) \<longleftrightarrow>
     has_pair x y a \<or> has_pair x y b \<or> (a \<noteq> [] \<and> b \<noteq> [] \<and> last a = x \<and> hd b = y)"
proof (induction a)
  case Nil
  then show ?case by simp
next
  case (Cons c a)
  then show ?case by (cases a; cases b) auto
qed

lemma rmatch_cap_shift:
  "rmatch re s (k @ cap) = map_option (\<lambda>(c, r). (k @ c, r)) (rmatch re s cap)"
  by (induction re s cap arbitrary: k rule: rmatch.induct) (auto split: option.splits)

lemma rmatch_cap:
  "rmatch re s k = map_option (\<lambda>(c, r). (k @ c, r)) (rmatch re s [])"
  using rmatch_cap_shift [of re s k "[]"] by simp

lemma rmatch_None_cap:
  "rmatch re s k = None \<longleftrightarrow> rmatch re s [] = None"
  by (subst rmatch_cap) simp

lemma rmatch_pair:
  "rmatch [One P, One Q] s cap =
     (case s of x # y # r \<Rightarrow> if P x \<and> Q y then Some (cap, r) else None | _ \<Rightarrow> None)"
  by (cases s; cases "tl s") auto

lemma rmatch_Greedy_One:
  assumes "\<And>c. P c \<Longrightarrow> \<not> S c"
  shows "rmatch (Greedy S # One P # as) s cap = rmatch (One P # as) (dropWhile S s) cap"
proof (induction s)
  case Nil
  then show ?case by simp
next
  case (Cons c cs)
  then show ?case using assms by (auto split: option.splits)
qed

lemma rmatch_Lazy_stuck:
  assumes PS: "\<And>c. P c \<Longrightarrow> \<not> S c"
  shows "rmatch (Lazy D # Greedy S # One P # as) (dropWhile S s) [] = None \<Longrightarrow>
         rmatch (Lazy D # Greedy S # One P # as) s cap = None"
proof (induction s arbitrary: cap)
  case Nil
  then show ?case by (simp add: rmatch_None_cap [of _ _ cap])
next
  case (Cons c cs)
  show ?case
  proof (cases "S c")
    case False
    with Cons.prems have "rmatch (Lazy D # Greedy S # One P # as) (c # cs) [] = None"
      by (simp only: dropWhile.simps if_False)
    then show ?thesis by (simp only: rmatch_None_cap [of _ _ cap])
  next
    case True
    let ?L = "Lazy D # Greedy S # One P # as"
    from True Cons.prems have stuck: "rmatch ?L (dropWhile S cs) [] = None" by simp
    have tail: "rmatch (One P # as) (dropWhile S cs) cap = None"
    proof -
      have "rmatch ?L t [] = None \<Longrightarrow> rmatch (Greedy S # One P # as) t [] = None" for t
        by (cases t) (auto split: option.splits)
      from this [OF stuck] have "rmatch (One P # as) (dropWhile S (dropWhile S cs)) [] = None"
        by (simp add: rmatch_Greedy_One [OF PS])
      then show ?thesis by (simp add: rmatch_None_cap [of _ _ cap])
    qed
    have "rmatch (Greedy S # One P # as) (c # cs) cap = None"
      using tail True by (simp only: rmatch_Greedy_One [OF PS]) simp
    moreover have "rmatch ?L cs (cap @ [c]) = None"
      using Cons.IH [OF stuck] .
    ultimately show ?thesis by simp
  qed
qed

lemma rmatch_Greedy_Lazy:
  assumes PS: "\<And>c. P c \<Longrightarrow> \<not> S c"
  shows "rmatch (Greedy S # Lazy D # Greedy S # One P # as) s cap =
         rmatch (Lazy D # Greedy S # One P # as) (dropWhile S s) cap"
proof (induction s)
  case Nil
  then show ?case by simp
next
  case (Cons c cs)
  let ?L = "Lazy D # Greedy S # One P # as"
  show ?case
  proof (cases "S c")
    case False
    then show ?thesis by simp
  next
    case True
    show ?thesis
    proof (cases "rmatch ?L (dropWhile S cs) cap")
      case None
      then have "rmatch ?L (dropWhile S (c # cs)) [] = None"
        using True by (simp add: rmatch_None_cap [of _ _ cap])
      then have "rmatch ?L (c # cs) cap = None"
        using rmatch_Lazy_stuck [of P S D as "c # cs" cap] PS by blast
      with None True Cons.IH show ?thesis by simp
    next
      case (Some r)
      with True Cons.IH show ?thesis by simp
    qed
  qed
qed

lemma has_pair_Cons: "has_pair x y s \<Longrightarrow> has_pair x y (c # s)"
  by (cases s) auto

lemma has_pair_appendI1: "has_pair x y a \<Longrightarrow> has_pair x y (a @ b)"
  by (simp add: has_pair_append)

lemma has_pair_appendI2: "has_pair x y b \<Longrightarrow> has_pair x y (a @ b)"
  by (simp add: has_pair_append)

lemma has_pair_dropWhile: "has_pair x y (dropWhile S s) \<Longrightarrow> has_pair x y s"
  using has_pair_appendI2 [of x y "dropWhile S s" "takeWhile S s"] by simp

lemma rstrip_Cons:
  "\<not> (\<forall>z\<in>set (c # m). S z) \<Longrightarrow>
   rev (dropWhile S (rev (c # m))) = c # rev (dropWhile S (rev m))"
  by (auto simp: dropWhile_append)

lemma rstrip_all: "\<forall>z\<in>set m. S z \<Longrightarrow> rev (dropWhile S (rev m)) = []"
  by simp

text \<open>
  The closing delimiter cannot be matched inside a text in which the pair does not
  occur.
\<close>

lemma pair_tail_None:
  assumes "\<not> has_pair x y m" "l \<noteq> y" "\<not> (\<forall>z\<in>set m. S z)"
  shows "rmatch [One (\<lambda>c. c = x), One (\<lambda>c. c = y)] (dropWhile S (m @ l # v)) cap = None"
proof -
  from assms(3) have dw: "dropWhile S (m @ l # v) = dropWhile S m @ l # v"
    by (auto simp: dropWhile_append)
  from assms(3) obtain z zs where zs: "dropWhile S m = z # zs"
    by (cases "dropWhile S m") auto
  have np: "\<not> has_pair x y (z # zs)"
    using assms(1) has_pair_dropWhile [of x y S m] zs by auto
  show ?thesis
  proof (cases zs)
    case Nil
    with dw zs assms(2) show ?thesis by (simp add: rmatch_pair)
  next
    case (Cons w ws)
    with np have "\<not> (z = x \<and> w = y)" by auto
    with dw zs Cons show ?thesis by (auto simp: rmatch_pair)
  qed
qed

lemma rmatch_Lazy_found:
  assumes xS: "\<not> S x" and xy: "x \<noteq> y"
  shows "\<not> has_pair x y mid \<Longrightarrow> list_all D (rev (dropWhile S (rev mid))) \<Longrightarrow>
     rmatch [Lazy D, Greedy S, One (\<lambda>c. c = x), One (\<lambda>c. c = y)] (mid @ x # y # post) cap =
       Some (cap @ rev (dropWhile S (rev mid)), post)"
proof (induction mid arbitrary: cap)
  case Nil
  have "rmatch [Greedy S, One (\<lambda>c. c = x), One (\<lambda>c. c = y)] (x # y # post) cap = Some (cap, post)"
    using xS by (subst rmatch_Greedy_One) auto
  then show ?case by simp
next
  case (Cons c m)
  let ?G = "[Greedy S, One (\<lambda>c. c = x), One (\<lambda>c. c = y)]"
  have G: "rmatch ?G s cap = rmatch [One (\<lambda>c. c = x), One (\<lambda>c. c = y)] (dropWhile S s) cap" for s cap
    using xS by (subst rmatch_Greedy_One) auto
  show ?case
  proof (cases "\<forall>z\<in>set (c # m). S z")
    case True
    then have "dropWhile S ((c # m) @ x # y # post) = x # y # post"
      using xS by (simp add: dropWhile_append)
    then have "rmatch ?G ((c # m) @ x # y # post) cap = Some (cap, post)"
      by (simp only: G rmatch_pair) simp
    moreover have "rev (dropWhile S (rev (c # m))) = []"
      using True by (intro rstrip_all)
    ultimately show ?thesis by simp
  next
    case False
    have "rmatch ?G ((c # m) @ x # y # post) cap = None"
      unfolding G using pair_tail_None [OF Cons.prems(1) xy False] by simp
    moreover have rs: "rev (dropWhile S (rev (c # m))) = c # rev (dropWhile S (rev m))"
      using False by (rule rstrip_Cons)
    moreover have "D c" "list_all D (rev (dropWhile S (rev m)))"
      using Cons.prems(2) unfolding rs by simp_all
    moreover have "\<not> has_pair x y m"
      using Cons.prems(1) has_pair_Cons by blast
    ultimately show ?thesis
      using Cons.IH [of "cap @ [c]"] by simp
  qed
qed

lemma rmatch_Lazy_sound:
  assumes xS: "\<not> S x"
  shows "rmatch [Lazy D, Greedy S, One (\<lambda>c. c = x), One (\<lambda>c. c = y)] t cap = Some r \<Longrightarrow>
     has_pair x y t"
proof (induction t arbitrary: cap)
  case Nil
  then show ?case by simp
next
  case (Cons c cs)
  let ?G = "[Greedy S, One (\<lambda>c. c = x), One (\<lambda>c. c = y)]"
  have G: "rmatch ?G s cap = rmatch [One (\<lambda>c. c = x), One (\<lambda>c. c = y)] (dropWhile S s) cap" for s cap
    using xS by (subst rmatch_Greedy_One) auto
  show ?case
  proof (cases "rmatch ?G (c # cs) cap")
    case None
    with Cons.prems have "rmatch [Lazy D, Greedy S, One (\<lambda>c. c = x), One (\<lambda>c. c = y)] cs (cap @ [c]) = Some r"
      by (auto split: if_splits)
    from Cons.IH [OF this] show ?thesis by (rule has_pair_Cons)
  next
    case (Some q)
    then have "rmatch [One (\<lambda>c. c = x), One (\<lambda>c. c = y)] (dropWhile S (c # cs)) cap = Some q"
      by (simp only: G)
    then have "has_pair x y (dropWhile S (c # cs))"
      by (auto simp: rmatch_pair split: list.splits if_splits)
    then show ?thesis by (rule has_pair_dropWhile)
  qed
qed

lemma block_re_delim: "block_re = delim_re 91 93 any_char"
  by (simp add: block_re_def delim_re_def lit_def)

lemma inline_re_delim: "inline_re = delim_re 40 41 dot"
  by (simp add: inline_re_def delim_re_def lit_def)

lemma bsl_not_space: "\<not> is_space bsl"
  by (simp add: is_space_def is_line_terminator_def)

lemma delim_re_open:
  "rmatch (delim_re opn cls D) (bsl # opn # s) cap =
     rmatch [Lazy D, Greedy is_space, One (\<lambda>c. c = bsl), One (\<lambda>c. c = cls)] (dropWhile is_space s) cap"
proof -
  have "rmatch (Greedy is_space # Lazy D # Greedy is_space # One (\<lambda>c. c = bsl) # [One (\<lambda>c. c = cls)]) s cap =
        rmatch (Lazy D # Greedy is_space # One (\<lambda>c. c = bsl) # [One (\<lambda>c. c = cls)]) (dropWhile is_space s) cap"
    by (rule rmatch_Greedy_Lazy) (simp add: bsl_not_space)
  then show ?thesis by (simp add: delim_re_def)
qed

lemma delim_re_start:
  assumes "rmatch (delim_re opn cls D) t [] = Some r"
  shows "\<exists>s. t = bsl # opn # s \<and> has_pair bsl cls s"
proof -
  from assms obtain s where t: "t = bsl # opn # s"
    unfolding delim_re_def by (cases t; cases "tl t") (auto split: if_splits)
  with assms have "rmatch [Lazy D, Greedy is_space, One (\<lambda>c. c = bsl), One (\<lambda>c. c = cls)]
      (dropWhile is_space s) [] = Some r"
    by (simp only: delim_re_open)
  then have "has_pair bsl cls (dropWhile is_space s)"
    using rmatch_Lazy_sound [where S = is_space and x = bsl, OF bsl_not_space] by blast
  then have "has_pair bsl cls s" by (rule has_pair_dropWhile)
  with t show ?thesis by blast
qed

lemma trim_decomp: "\<exists>a b. s = a @ trim s @ b"
proof -
  let ?d = "dropWhile is_space s"
  have "rev ?d = takeWhile is_space (rev ?d) @ dropWhile is_space (rev ?d)" by simp
  then have "?d = trim s @ rev (takeWhile is_space (rev ?d))"
    unfolding trim_def by (metis rev_append rev_rev_ident)
  moreover have "s = takeWhile is_space s @ ?d" by simp
  ultimately show ?thesis by metis
qed

lemma trim_idem: "trim (trim s) = trim s"
proof -
  let ?d = "dropWhile is_space s"
  let ?b = "dropWhile is_space (rev ?d)"
  have 1: "dropWhile is_space (rev ?b) = rev ?b"
  proof (cases "?b = []")
    case True then show ?thesis by (simp only: rev.simps dropWhile.simps)
  next
    case False
    have "rev ?d = takeWhile is_space (rev ?d) @ ?b" by simp
    then have "?d = rev ?b @ rev (takeWhile is_space (rev ?d))"
      by (metis rev_append rev_rev_ident)
    then have "hd ?d = hd (rev ?b)" using False by (metis hd_append2 rev_is_Nil_conv)
    moreover have "?d \<noteq> []"
    proof
      assume e: "?d = []"
      have "?b = []" unfolding e by simp
      with False show False by simp
    qed
    then have "\<not> is_space (hd ?d)" by (rule hd_dropWhile)
    ultimately have "\<not> is_space (hd (rev ?b))" by simp
    then show ?thesis using False by (cases "rev ?b") auto
  qed
  have 2: "dropWhile is_space ?b = ?b" by (rule dropWhile_idem)
  show ?thesis unfolding trim_def by (simp only: 1 rev_rev_ident 2)
qed

lemma dropWhile_space_bsl:
  "dropWhile is_space (mid @ bsl # t) = dropWhile is_space mid @ bsl # t"
  using bsl_not_space by (auto simp: dropWhile_append)

lemma delim_re_found:
  assumes "\<not> has_pair bsl cls mid" "list_all D (trim mid)" "cls \<noteq> bsl"
  shows "rmatch (delim_re opn cls D) (bsl # opn # mid @ bsl # cls # post) [] = Some (trim mid, post)"
proof -
  have np: "\<not> has_pair bsl cls (dropWhile is_space mid)"
    using assms(1) has_pair_dropWhile by blast
  have "rmatch [Lazy D, Greedy is_space, One (\<lambda>c. c = bsl), One (\<lambda>c. c = cls)]
         (dropWhile is_space mid @ bsl # cls # post) [] = Some ([] @ trim mid, post)"
    unfolding trim_def
    using assms(2,3) by (intro rmatch_Lazy_found [where S = is_space and x = bsl, OF bsl_not_space _ np]) (auto simp: trim_def)
  then show ?thesis
    by (simp only: delim_re_open dropWhile_space_bsl append_Nil)
qed

subsection \<open>replace_all\<close>



lemma delim_re_Nil: "rmatch (delim_re opn cls D) [] [] = None"
  by (simp add: delim_re_def)


lemma has_span_Cons: "has_span opn cls s \<Longrightarrow> has_span opn cls (c # s)"
  by (cases s) auto

lemma replace_all_no_span:
  "\<not> has_span opn cls s \<Longrightarrow> replace_all (delim_re opn cls D) f s = s"
proof (induction s)
  case Nil
  then show ?case by (simp add: delim_re_Nil)
next
  case (Cons c s)
  have "rmatch (delim_re opn cls D) (c # s) [] = None"
  proof (rule ccontr)
    assume "rmatch (delim_re opn cls D) (c # s) [] \<noteq> None"
    then obtain r where "rmatch (delim_re opn cls D) (c # s) [] = Some r" by auto
    from delim_re_start [OF this] have "has_span opn cls (c # s)" by auto
    with Cons.prems show False by simp
  qed
  moreover have "\<not> has_span opn cls s"
    using Cons.prems has_span_Cons by blast
  ultimately show ?case using Cons.IH by simp
qed

lemma replace_all_One:
  "replace_all [One P] (\<lambda>_. r) s = concat (map (\<lambda>c. if P c then r else [c]) s)"
  by (induction s) auto

lemma scrub_replace:
  "replace_all odd_space_re (\<lambda>_. str '' '') (replace_all nbsp_re (\<lambda>_. str '' '') s) = scrub s"
proof -
  have 1: "concat (map (\<lambda>c. if P c then [32] else [c]) s) = map (\<lambda>c. if P c then 32 else c) s"
    for P :: "jschar \<Rightarrow> bool" and s
    by (induction s) auto
  have sp: "str '' '' = [32]" by (simp add: str_def)
  show ?thesis
    unfolding odd_space_re_def nbsp_re_def replace_all_One sp 1
    by (auto simp: scrub_def scrub_char_def odd_space_def)
qed

lemma cleanLatexDelimiters_stages:
  "cleanLatexDelimiters x =
     replace_all inline_re inline_repl (replace_all block_re block_repl (scrub x))"
proof (cases "x = []")
  case True
  then show ?thesis
    by (simp add: cleanLatexDelimiters_def scrub_def block_re_delim inline_re_delim delim_re_Nil)
next
  case False
  then show ?thesis
    by (simp only: cleanLatexDelimiters_def Let_def scrub_replace if_False)
qed

lemma has_pair_take1 [simp]: "\<not> has_pair x y (take (Suc 0) b)"
  by (cases b) auto

lemma has_pair_single [simp]: "\<not> has_pair x y [c]"
  by simp


lemma has_pair_Cons_iff:
  "has_pair x y (a # s) \<longleftrightarrow> (s \<noteq> [] \<and> a = x \<and> hd s = y) \<or> has_pair x y s"
  by (cases s) auto

lemma list_all_any_char [simp]: "list_all any_char s"
  by (simp add: list_all_iff any_char_def)

lemma canonical_fixed: "canonical x \<Longrightarrow> cleanLatexDelimiters x = x"
proof -
  assume c: "canonical x"
  then have "scrub x = x"
    unfolding scrub_def canonical_def disallowed_def
    by (intro map_idI) (simp add: scrub_char_def)
  then show ?thesis
    using c unfolding cleanLatexDelimiters_stages block_re_delim inline_re_delim canonical_def
    by (simp add: replace_all_no_span)
qed

subsection \<open>The rewrites and their description\<close>

text \<open>
  The pattern of a delimited part matches at an opening delimiter exactly when a
  closing delimiter follows and the trimmed content up to the first closing delimiter
  lies in the class of the lazy star. So each delimiter rewrite of the program is the
  rewrite \<open>rewrite_spans\<close>.
\<close>

lemma split_pair_Some:
  "split_pair x y s = Some (m, r) \<Longrightarrow> s = m @ x # y # r \<and> \<not> has_pair x y m"
proof (induction s arbitrary: m)
  case Nil
  then show ?case by simp
next
  case (Cons a t)
  show ?case
  proof (cases t)
    case Nil
    with Cons.prems show ?thesis by simp
  next
    case (Cons b u)
    show ?thesis
    proof (cases "a = x \<and> b = y")
      case True
      with Cons Cons.prems show ?thesis by simp
    next
      case False
      with Cons Cons.prems obtain m' where m': "split_pair x y t = Some (m', r)" "m = a # m'"
        by (auto split: option.splits)
      from Cons.IH [OF m'(1)] have t: "t = m' @ x # y # r" "\<not> has_pair x y m'" by simp_all
      have "\<not> has_pair x y (a # m')"
        using t False Cons by (cases m') (auto simp: has_pair_Cons_iff)
      with t m' show ?thesis by simp
    qed
  qed
qed

lemma split_pair_None: "split_pair x y s = None \<Longrightarrow> \<not> has_pair x y s"
proof (induction s)
  case Nil
  then show ?case by simp
next
  case (Cons a t)
  then show ?case by (cases t) (auto split: if_splits option.splits)
qed

lemma rmatch_Lazy_none:
  assumes xS: "\<not> S x" and xy: "x \<noteq> y"
  shows "\<not> has_pair x y mid \<Longrightarrow> \<not> list_all D (rev (dropWhile S (rev mid))) \<Longrightarrow>
     rmatch [Lazy D, Greedy S, One (\<lambda>c. c = x), One (\<lambda>c. c = y)] (mid @ x # y # post) cap = None"
proof (induction mid arbitrary: cap)
  case Nil
  then show ?case by simp
next
  case (Cons c m)
  let ?G = "[Greedy S, One (\<lambda>c. c = x), One (\<lambda>c. c = y)]"
  have G: "rmatch ?G s cap = rmatch [One (\<lambda>c. c = x), One (\<lambda>c. c = y)] (dropWhile S s) cap" for s cap
    using xS by (subst rmatch_Greedy_One) auto
  have some: "\<not> (\<forall>z\<in>set (c # m). S z)"
  proof
    assume "\<forall>z\<in>set (c # m). S z"
    then have "rev (dropWhile S (rev (c # m))) = []" by (intro rstrip_all)
    with Cons.prems(2) show False by (simp only: list.pred_inject not_True_eq_False)
  qed
  have tail: "rmatch ?G ((c # m) @ x # y # post) cap = None"
    unfolding G using pair_tail_None [OF Cons.prems(1) xy some] by simp
  have rs: "rev (dropWhile S (rev (c # m))) = c # rev (dropWhile S (rev m))"
    using some by (rule rstrip_Cons)
  show ?case
  proof (cases "D c")
    case False
    with tail show ?thesis by simp
  next
    case True
    with Cons.prems(2) have "\<not> list_all D (rev (dropWhile S (rev m)))"
      unfolding rs by simp
    moreover have "\<not> has_pair x y m"
      using Cons.prems(1) has_pair_Cons by blast
    ultimately have "rmatch [Lazy D, Greedy S, One (\<lambda>c. c = x), One (\<lambda>c. c = y)]
        (m @ x # y # post) (cap @ [c]) = None"
      by (rule Cons.IH [rotated])
    with tail True show ?thesis by simp
  qed
qed

lemma delim_re_first:
  assumes "\<not> has_pair bsl cls mid" "cls \<noteq> bsl"
  shows "rmatch (delim_re opn cls D) (bsl # opn # mid @ bsl # cls # post) [] =
           (if list_all D (trim mid) then Some (trim mid, post) else None)"
proof (cases "list_all D (trim mid)")
  case True
  with delim_re_found [OF assms(1) _ assms(2)] show ?thesis by simp
next
  case False
  have np: "\<not> has_pair bsl cls (dropWhile is_space mid)"
    using assms(1) has_pair_dropWhile by blast
  have "rmatch [Lazy D, Greedy is_space, One (\<lambda>c. c = bsl), One (\<lambda>c. c = cls)]
         (dropWhile is_space mid @ bsl # cls # post) [] = None"
    using False assms(2)
    by (intro rmatch_Lazy_none [where S = is_space and x = bsl, OF bsl_not_space _ np])
       (auto simp: trim_def)
  with False show ?thesis
    by (simp only: delim_re_open dropWhile_space_bsl if_False)
qed

lemma delim_re_miss:
  "span_at opn cls s = None \<Longrightarrow> rmatch (delim_re opn cls D) s [] = None"
proof (rule ccontr)
  assume n: "span_at opn cls s = None" and "rmatch (delim_re opn cls D) s [] \<noteq> None"
  then obtain r where "rmatch (delim_re opn cls D) s [] = Some r" by auto
  from delim_re_start [OF this] obtain t where t: "s = bsl # opn # t" "has_pair bsl cls t"
    by blast
  with n have "split_pair bsl cls t = None" by (simp add: span_at_def)
  from split_pair_None [OF this] t(2) show False by simp
qed

lemma span_at_Some:
  "span_at opn cls s = Some (m, r) \<Longrightarrow> s = bsl # opn # m @ bsl # cls # r \<and> \<not> has_pair bsl cls m"
  by (auto simp: span_at_def split: list.splits if_splits dest: split_pair_Some)

lemma replace_all_rewrite_spans:
  assumes "cls \<noteq> bsl"
  shows "replace_all (delim_re opn cls D) (\<lambda>cap. wrap (trim cap)) s =
         rewrite_spans opn cls (list_all D) wrap s"
proof (induction "length s" arbitrary: s rule: less_induct)
  case less
  show ?case
  proof (cases s)
    case Nil
    then show ?thesis by (simp add: delim_re_Nil)
  next
    case (Cons c t)
    have IHt: "replace_all (delim_re opn cls D) (\<lambda>cap. wrap (trim cap)) t =
         rewrite_spans opn cls (list_all D) wrap t"
      using less [of t] Cons by simp
    show ?thesis
    proof (cases "span_at opn cls (c # t)")
      case None
      from delim_re_miss [OF None] IHt Cons None show ?thesis by simp
    next
      case (Some mr)
      obtain m r where mr: "mr = (m, r)" by (cases mr)
      from span_at_Some [OF Some [unfolded mr]]
      have ct: "c # t = bsl # opn # m @ bsl # cls # r" and np: "\<not> has_pair bsl cls m" by simp_all
      have rm: "rmatch (delim_re opn cls D) (c # t) [] =
           (if list_all D (trim m) then Some (trim m, r) else None)"
        unfolding ct by (rule delim_re_first [OF np assms])
      show ?thesis
      proof (cases "list_all D (trim m)")
        case True
        have len: "length r < length (c # t)" unfolding ct by simp
        have "replace_all (delim_re opn cls D) (\<lambda>cap. wrap (trim cap)) r =
              rewrite_spans opn cls (list_all D) wrap r"
          using less [of r] len Cons by simp
        with rm True len Cons Some mr show ?thesis
          by (simp add: trim_idem)
      next
        case False
        with rm IHt Cons Some mr show ?thesis by simp
      qed
    qed
  qed
qed

lemma block_stage:
  "replace_all block_re block_repl s = rewrite_blocks s"
proof -
  have f: "block_repl = (\<lambda>cap. display_math (trim cap))"
    by (rule ext) (simp add: block_repl_def display_math_def)
  have ok: "list_all any_char = (\<lambda>content. True)"
    by (rule ext) simp
  show ?thesis
    unfolding block_re_delim f rewrite_blocks_def
    by (subst replace_all_rewrite_spans) (simp_all add: ok)
qed

lemma inline_stage:
  "replace_all inline_re inline_repl s = rewrite_inline s"
proof -
  have f: "inline_repl = (\<lambda>cap. inline_math (trim cap))"
    by (rule ext) (simp add: inline_repl_def inline_math_def)
  have ok: "list_all dot = one_line"
    by (rule ext) (simp add: one_line_def list_all_iff dot_def)
  show ?thesis
    unfolding inline_re_delim f rewrite_inline_def
    by (subst replace_all_rewrite_spans) (simp_all add: ok)
qed



section \<open>Claims about the canonicalizer\<close>

lemmas canonicalizer_eval =
  cleanLatexDelimiters_def str_def block_re_def inline_re_def nbsp_re_def odd_space_re_def
  lit_def block_repl_def inline_repl_def trim_def is_space_def is_line_terminator_def
  dot_def any_char_def odd_space_def Let_def


lemmas spec_eval =
  rewrite_blocks_def rewrite_inline_def span_at_def display_math_def inline_math_def
  one_line_def scrub_def scrub_char_def odd_space_def str_def trim_def is_space_def
  is_line_terminator_def


text \<open>
  Claim C4 as stated does not hold: the span \<open>\(a\<close>, line feed, \<open>b\)\<close> is a
  \<open>\( ... \)\<close> span and is not replaced by \<open>$a\<close>, line feed, \<open>b$\<close>; the text
  is returned as it is.
\<close>

theorem cleanLatexDelimiters_inline_span_kept:
  "cleanLatexDelimiters ([bsl, lparen] @ str ''a'' @ [nl] @ str ''b'' @ [bsl, rparen]) =
     [bsl, lparen] @ str ''a'' @ [nl] @ str ''b'' @ [bsl, rparen] \<and>
   cleanLatexDelimiters ([bsl, lparen] @ str ''a'' @ [nl] @ str ''b'' @ [bsl, rparen]) \<noteq>
     str ''$a'' @ [nl] @ str ''b$''"
  by (simp add: canonicalizer_eval)

text \<open>
  Claim C4, amended. For every text, \<open>cleanLatexDelimiters\<close> gives the text that
  the following three steps give, in this order.
  \<^item> Each of the characters U+00A0, U+2000 to U+200B, U+202F, U+205F, U+3000 is
    replaced by a space (\<open>scrub\<close>).
  \<^item> The blocks are rewritten (\<open>rewrite_blocks\<close>), reading from left to right: at a
    \<open>\[\<close> after which a \<open>\]\<close> occurs, the content runs to the first \<open>\]\<close>, and
    the block is replaced by \<open>$$\<close>, line feed, the trimmed content, line feed,
    \<open>$$\<close>; reading goes on behind the \<open>\]\<close>.
  \<^item> In the text that the second step gives, the inline spans are rewritten
    (\<open>rewrite_inline\<close>), reading from left to right: at a \<open>\(\<close> after which a
    \<open>\)\<close> occurs, the content runs to the first \<open>\)\<close>; when the trimmed content
    holds no line terminator, the span is replaced by \<open>$\<close>, the trimmed content,
    \<open>$\<close>, and reading goes on behind the \<open>\)\<close>; when it holds one, the \<open>\(\<close>
    is kept and reading goes on with the character behind its backslash.

  Every other character is kept. The example of the specification holds.
\<close>

theorem cleanLatexDelimiters_rewrites:
  "cleanLatexDelimiters x = rewrite_inline (rewrite_blocks (scrub x)) \<and>
   cleanLatexDelimiters
     (str ''Let '' @ [bsl] @ str ''[ x^2 + y^2 = z^2 '' @ [bsl] @ str ''] and '' @
      [bsl] @ str ''( a=b '' @ [bsl] @ str '').'') =
     str ''Let $$'' @ [nl] @ str ''x^2 + y^2 = z^2'' @ [nl] @ str ''$$ and $a=b$.''"
proof
  show "cleanLatexDelimiters x = rewrite_inline (rewrite_blocks (scrub x))"
    by (simp only: cleanLatexDelimiters_stages block_stage inline_stage)
  show "cleanLatexDelimiters
     (str ''Let '' @ [bsl] @ str ''[ x^2 + y^2 = z^2 '' @ [bsl] @ str ''] and '' @
      [bsl] @ str ''( a=b '' @ [bsl] @ str '').'') =
     str ''Let $$'' @ [nl] @ str ''x^2 + y^2 = z^2'' @ [nl] @ str ''$$ and $a=b$.''"
    by (simp add: canonicalizer_eval)
qed

text \<open>
  Three texts in which the two kinds of delimiters meet. An inline span inside a block
  is rewritten as well. A \<open>\(\<close> before a block is paired with a \<open>\)\<close> inside the
  block, and is kept because the content between them holds a line feed once the block
  is rewritten. After a \<open>\(\<close> that is kept, a later \<open>\(\<close> is rewritten.
\<close>

theorem cleanLatexDelimiters_rewrites_witness:
  "cleanLatexDelimiters ([bsl, lbracket] @ str '' '' @ [bsl, lparen] @ str ''x'' @ [bsl, rparen] @
                         [0xA0] @ [bsl, rbracket]) =
     str ''$$'' @ [nl] @ str ''$x$'' @ [nl] @ str ''$$'' \<and>
   cleanLatexDelimiters ([bsl, lparen] @ str '' a '' @ [bsl, lbracket] @ str '' b '' @
                         [bsl, rparen] @ str '' c '' @ [bsl, rbracket]) =
     [bsl, lparen] @ str '' a $$'' @ [nl] @ str ''b '' @ [bsl, rparen] @ str '' c'' @ [nl] @
     str ''$$'' \<and>
   cleanLatexDelimiters ([bsl, lparen] @ str ''a'' @ [nl] @ str ''b '' @ [bsl, lparen] @
                         str '' c '' @ [bsl, rparen]) =
     [bsl, lparen] @ str ''a'' @ [nl] @ str ''b $c$''"
proof -
  note t = cleanLatexDelimiters_rewrites [THEN conjunct1]
  have 1: "rewrite_inline (rewrite_blocks (scrub ([bsl, lbracket] @ str '' '' @ [bsl, lparen] @
             str ''x'' @ [bsl, rparen] @ [0xA0] @ [bsl, rbracket]))) =
     str ''$$'' @ [nl] @ str ''$x$'' @ [nl] @ str ''$$''"
    by (simp add: spec_eval)
  have 2: "rewrite_inline (rewrite_blocks (scrub ([bsl, lparen] @ str '' a '' @ [bsl, lbracket] @
             str '' b '' @ [bsl, rparen] @ str '' c '' @ [bsl, rbracket]))) =
     [bsl, lparen] @ str '' a $$'' @ [nl] @ str ''b '' @ [bsl, rparen] @ str '' c'' @ [nl] @
     str ''$$''"
    by (simp add: spec_eval)
  have 3: "rewrite_inline (rewrite_blocks (scrub ([bsl, lparen] @ str ''a'' @ [nl] @ str ''b '' @
             [bsl, lparen] @ str '' c '' @ [bsl, rparen]))) =
     [bsl, lparen] @ str ''a'' @ [nl] @ str ''b $c$''"
    by (simp add: spec_eval)
  show ?thesis
    unfolding t 1 2 3 by simp
qed

text \<open>
  Claim C8: on a text in canonical form (none of the characters U+00A0, U+2000 to
  U+200B, U+202F, U+205F, U+3000, no \<open>\[\<close> followed later by \<open>\]\<close>, no \<open>\(\<close>
  followed later by \<open>\)\<close>) canonicalizing twice gives the same text as canonicalizing
  once.
\<close>

theorem cleanLatexDelimiters_idempotent:
  "canonical x \<Longrightarrow> cleanLatexDelimiters (cleanLatexDelimiters x) = cleanLatexDelimiters x"
  by (simp add: canonical_fixed)

theorem cleanLatexDelimiters_idempotent_witness:
  "canonical (str ''$$'' @ [nl] @ str ''x^2'' @ [nl] @ str ''$$ and $a=b$. '' @ [bsl, rparen]) \<and>
   cleanLatexDelimiters (cleanLatexDelimiters
     (str ''$$'' @ [nl] @ str ''x^2'' @ [nl] @ str ''$$ and $a=b$. '' @ [bsl, rparen])) =
   cleanLatexDelimiters (str ''$$'' @ [nl] @ str ''x^2'' @ [nl] @ str ''$$ and $a=b$. '' @ [bsl, rparen])"
proof -
  have c: "canonical (str ''$$'' @ [nl] @ str ''x^2'' @ [nl] @ str ''$$ and $a=b$. '' @ [bsl, rparen])"
    by (simp add: canonical_def disallowed_def odd_space_def str_def)
  from c cleanLatexDelimiters_idempotent [OF c] show ?thesis by simp
qed




section \<open>Properties of the extraction\<close>

lemma performMistralOCR_success:
  assumes "mistralApiKey st \<noteq> []"
    and "atob sdk base64Data = Inr bytes"
    and "files_upload sdk (upload_name sdk mimeType) bytes = Inr (Some fileId)"
    and "fileId \<noteq> []"
    and "files_getSignedUrl sdk fileId = Inr url"
    and "ocr_process sdk url (extractImages st) = Inr ocrResponse"
  shows "performMistralOCR st sdk base64Data mimeType =
           ([FilesUpload (upload_name sdk mimeType), FilesGetSignedUrl fileId,
             OcrProcess url (extractImages st)],
            Inr (parse_results st ocrResponse))"
  using assms by (simp add: performMistralOCR_def Let_def)

lemma join_pages_Cons:
  "join_pages (t # ts) = t @ concat (map (\<lambda>u. page_separator @ u) ts)"
  by (induction ts arbitrary: t) simp_all

lemma pages_forEach_md_later:
  "0 < i \<Longrightarrow> fst (pages_forEach st ps i (md, imgs)) =
     md @ concat (map (\<lambda>u. page_separator @ u) (map page_text ps))"
  by (induction ps arbitrary: i md imgs) (simp_all add: Let_def page_text_def)

lemma pages_forEach_md:
  "fst (pages_forEach st ps 0 ([], imgs)) = join_pages (map page_text ps)"
proof (cases ps)
  case Nil
  then show ?thesis by simp
next
  case (Cons p rest)
  then show ?thesis
    by (simp add: Let_def join_pages_Cons pages_forEach_md_later) (simp add: page_text_def)
qed

lemma parse_results_markdown:
  "markdown (parse_results st ocrResponse) =
     trim (join_pages (map page_text (response_pages ocrResponse)))"
proof -
  have "fst (case ocrResponse of
           Some r \<Rightarrow> (case pages r of Some ps \<Rightarrow> pages_forEach st ps 0 ([], []) | None \<Rightarrow> ([], []))
         | None \<Rightarrow> ([], [])) = join_pages (map page_text (response_pages ocrResponse))"
    by (simp add: response_pages_def pages_forEach_md split: option.splits)
  then show ?thesis
    by (simp add: parse_results_def split_beta)
qed

lemma trim_clean_ends:
  assumes "s \<noteq> []" "\<not> is_space (hd s)" "\<not> is_space (last s)"
  shows "trim s = s"
proof -
  have "dropWhile is_space s = s" using assms by (cases s) auto
  moreover have "dropWhile is_space (rev s) = rev s"
    using assms by (cases "rev s") (auto simp: hd_rev)
  ultimately show ?thesis by (simp add: trim_def)
qed

subsection \<open>The image table\<close>

lemma obj_set_set:
  "(k', v') \<in> set (obj_set kvs k v) \<Longrightarrow> (k', v') = (k, v) \<or> (k', v') \<in> set kvs"
  by (induction kvs) (auto split: if_splits)

lemma obj_set_distinct:
  "distinct (map fst kvs) \<Longrightarrow> distinct (map fst (obj_set kvs k v))"
proof (induction kvs)
  case Nil
  then show ?case by simp
next
  case (Cons kv kvs)
  obtain k' v' where kv: "kv = (k', v')" by (cases kv)
  show ?case
  proof (cases "k' = k")
    case True
    with Cons.prems kv show ?thesis by simp
  next
    case False
    have "k' \<notin> fst ` set (obj_set kvs k v)"
    proof
      assume "k' \<in> fst ` set (obj_set kvs k v)"
      then obtain w where "(k', w) \<in> set (obj_set kvs k v)" by auto
      from obj_set_set [OF this] False have "(k', w) \<in> set kvs" by simp
      with Cons.prems kv show False by force
    qed
    with Cons False kv show ?thesis by simp
  qed
qed


lemma Object_entries_set: "set (Object_entries obj) = set obj"
  by (auto simp: Object_entries_def)



lemma Object_keys_Nil: "Object_keys obj = [] \<longleftrightarrow> obj = []"
proof -
  have "Object_entries obj = [] \<longleftrightarrow> set (Object_entries obj) = {}" by simp
  then show ?thesis by (simp add: Object_keys_def Object_entries_set)
qed

lemma images_forEach_set:
  "(k, v) \<in> set (images_forEach page_imgs imgs) \<Longrightarrow>
   (k, v) \<in> set imgs \<or>
   (\<exists>img\<in>set page_imgs. img_id img = k \<and> image_payload img = Some v \<and> v \<noteq> [])"
proof (induction page_imgs arbitrary: imgs)
  case Nil
  then show ?case by simp
next
  case (Cons img rest)
  from Cons.IH [OF Cons.prems [simplified]] show ?case
    by (auto split: option.splits if_splits dest: obj_set_set)
qed

lemma images_forEach_distinct:
  "distinct (map fst imgs) \<Longrightarrow> distinct (map fst (images_forEach page_imgs imgs))"
  by (induction page_imgs arbitrary: imgs) (auto simp: obj_set_distinct split: option.splits)

lemma pages_forEach_set:
  "(k, v) \<in> set (snd (pages_forEach st ps i (md, imgs))) \<Longrightarrow>
   (k, v) \<in> set imgs \<or>
   (\<exists>page\<in>set ps. \<exists>page_imgs. page_images page = Some page_imgs \<and>
      (\<exists>img\<in>set page_imgs. img_id img = k \<and> image_payload img = Some v \<and> v \<noteq> []))"
proof (induction ps arbitrary: i md imgs)
  case Nil
  then show ?case by simp
next
  case (Cons page rest)
  let ?imgs' = "(case page_images page of
               Some page_imgs \<Rightarrow>
                 if extractImages st \<and> length page_imgs > 0
                 then images_forEach page_imgs imgs else imgs
             | None \<Rightarrow> imgs)"
  from Cons.prems obtain md' where
    "(k, v) \<in> set (snd (pages_forEach st rest (i + 1) (md', ?imgs')))"
    by (auto simp: Let_def)
  from Cons.IH [OF this] show ?case
  proof
    assume "(k, v) \<in> set ?imgs'"
    then have "(k, v) \<in> set imgs \<or>
      (\<exists>page_imgs. page_images page = Some page_imgs \<and>
      (\<exists>img\<in>set page_imgs. img_id img = k \<and> image_payload img = Some v \<and> v \<noteq> []))"
      by (auto split: option.splits if_splits dest: images_forEach_set)
    then show ?thesis by auto
  next
    assume "\<exists>page\<in>set rest. \<exists>page_imgs. page_images page = Some page_imgs \<and>
      (\<exists>img\<in>set page_imgs. img_id img = k \<and> image_payload img = Some v \<and> v \<noteq> [])"
    then show ?thesis by auto
  qed
qed

lemma pages_forEach_distinct:
  "distinct (map fst imgs) \<Longrightarrow> distinct (map fst (snd (pages_forEach st ps i (md, imgs))))"
  by (induction ps arbitrary: i md imgs)
     (auto simp: Let_def images_forEach_distinct split: option.splits)

lemma parse_results_images:
  assumes "(k, v) \<in> set (images (parse_results st ocrResponse))"
  shows "\<exists>img\<in>set (response_images ocrResponse).
           img_id img = k \<and> image_payload img = Some v \<and> v \<noteq> []"
proof -
  from assms obtain ps where ps: "response_pages ocrResponse = ps"
    and kv: "(k, v) \<in> set (snd (pages_forEach st ps 0 ([], [])))"
    by (auto simp: parse_results_def response_pages_def split_beta split: option.splits)
  have mem: "img \<in> set (response_images ocrResponse)"
    if "page \<in> set ps" "page_images page = Some page_imgs" "img \<in> set page_imgs"
    for page page_imgs img
    unfolding response_images_def ps using that by (induction ps) auto
  from pages_forEach_set [OF kv] obtain page page_imgs img where
    "page \<in> set ps" "page_images page = Some page_imgs" "img \<in> set page_imgs"
    "img_id img = k" "image_payload img = Some v" "v \<noteq> []"
    by auto
  with mem show ?thesis by blast
qed

lemma parse_results_distinct: "distinct (map fst (images (parse_results st ocrResponse)))"
  by (auto simp: parse_results_def split_beta pages_forEach_distinct split: option.splits)

text \<open>What \<open>split(",")[1]\<close> is: the text between the first and the second comma.\<close>

lemma split_acc_none: "sep \<notin> set s \<Longrightarrow> split_acc sep cur s = [cur @ s]"
  by (induction s arbitrary: cur) auto

lemma split_acc_first:
  "sep \<notin> set a \<Longrightarrow> split_acc sep cur (a @ sep # t) = (cur @ a) # split_acc sep [] t"
  by (induction a arbitrary: cur) auto

lemma split_second:
  assumes "at_index (split s sep) (Suc 0) = Some v"
  shows "\<exists>a rest. s = a @ sep # v @ rest \<and> sep \<notin> set a \<and> sep \<notin> set v \<and>
           (rest = [] \<or> hd rest = sep)"
proof (cases "sep \<in> set s")
  case False
  with assms show ?thesis by (simp add: split_def split_acc_none at_index_def)
next
  case True
  then obtain a t where s: "s = a @ sep # t" and a: "sep \<notin> set a"
    by (auto dest: split_list_first)
  show ?thesis
  proof (cases "sep \<in> set t")
    case False
    with assms s a have "v = t"
      by (simp add: split_def split_acc_first split_acc_none at_index_def)
    with s a False show ?thesis by (intro exI [of _ a] exI [of _ "[]"]) simp
  next
    case True
    then obtain b t' where t: "t = b @ sep # t'" and b: "sep \<notin> set b"
      by (auto dest: split_list_first)
    with assms s a have "v = b"
      by (simp add: split_def split_acc_first at_index_def)
    with s a t b show ?thesis by (intro exI [of _ a] exI [of _ "sep # t'"]) simp
  qed
qed

lemma split_no_sep: "sep \<notin> set s \<Longrightarrow> at_index (split s sep) (Suc 0) = None"
  by (simp add: split_def split_acc_none at_index_def)

lemma no_payload_None: "no_payload img \<Longrightarrow> image_payload img = None \<or> image_payload img = Some []"
  by (auto simp: no_payload_def image_payload_def startsWith_def str_def split_no_sep
      split: option.splits)

section \<open>Claims about the extraction\<close>

lemmas extraction_eval =
  performMistralOCR_def mock_sdk_def DEFAULT_SETTINGS_def upload_name_def split_def
  at_index_def parse_results_def Let_def str_def trim_def is_space_def
  is_line_terminator_def page_separator_def image_payload_def startsWith_def
  mistral_failed_def

text \<open>
  Claim C5: with an empty API key \<open>performMistralOCR\<close> throws the error
  "Mistral API Key not configured" and issues no network operation.
\<close>

theorem performMistralOCR_auth_gate:
  "mistralApiKey st = [] \<Longrightarrow>
   performMistralOCR st sdk base64Data mimeType =
     ([], Inl (Error (str ''Mistral API Key not configured'')))"
  by (simp add: performMistralOCR_def)

theorem performMistralOCR_auth_gate_witness:
  "mistralApiKey DEFAULT_SETTINGS = [] \<and>
   performMistralOCR DEFAULT_SETTINGS (mock_sdk []) (str ''QUJD'') (str ''image/png'') =
     ([], Inl (Error (str ''Mistral API Key not configured'')))"
proof -
  have k: "mistralApiKey DEFAULT_SETTINGS = []" by (simp add: DEFAULT_SETTINGS_def)
  from k performMistralOCR_auth_gate [OF k] show ?thesis by simp
qed

text \<open>
  Claim C3 as stated does not hold: the result is trimmed. For the two pages
  \<open>A\<close> and the empty text the join is \<open>A\<close> followed by the separator, and the
  markdown returned is \<open>A\<close>, two line feeds and \<open>---\<close>.
\<close>

theorem performMistralOCR_trims_join:
  "snd (performMistralOCR (DEFAULT_SETTINGS\<lparr>mistralApiKey := str ''key''\<rparr>)
         (mock_sdk [\<lparr>page_markdown = Some (str ''A''), page_images = None\<rparr>,
                    \<lparr>page_markdown = None, page_images = None\<rparr>])
         (str ''QUJD'') (str ''image/png'')) =
     Inr \<lparr>markdown = str ''A'' @ [nl, nl] @ str ''---'', images = []\<rparr> \<and>
   join_pages [str ''A'', []] = str ''A'' @ [nl, nl] @ str ''---'' @ [nl, nl] \<and>
   str ''A'' @ [nl, nl] @ str ''---'' \<noteq> join_pages [str ''A'', []]"
  by (simp add: extraction_eval)

text \<open>
  Claim C3, amended. When the three remote calls succeed, the markdown returned is the
  trimmed join of the page texts (an absent text is the empty text; the join has one
  separator between two consecutive pages, none before the first or after the last
  page). It is the join itself when the join is empty or has no whitespace at either
  end.
\<close>

theorem performMistralOCR_markdown:
  assumes "mistralApiKey st \<noteq> []"
    and "atob sdk base64Data = Inr bytes"
    and "files_upload sdk (upload_name sdk mimeType) bytes = Inr (Some fileId)"
    and "fileId \<noteq> []"
    and "files_getSignedUrl sdk fileId = Inr url"
    and "ocr_process sdk url (extractImages st) = Inr ocrResponse"
  shows "snd (performMistralOCR st sdk base64Data mimeType) = Inr (parse_results st ocrResponse) \<and>
     markdown (parse_results st ocrResponse) =
       trim (join_pages (map page_text (response_pages ocrResponse))) \<and>
     (join_pages (map page_text (response_pages ocrResponse)) = [] \<or>
      (\<not> is_space (hd (join_pages (map page_text (response_pages ocrResponse)))) \<and>
       \<not> is_space (last (join_pages (map page_text (response_pages ocrResponse))))) \<longrightarrow>
      markdown (parse_results st ocrResponse) =
        join_pages (map page_text (response_pages ocrResponse)))"
proof -
  let ?j = "join_pages (map page_text (response_pages ocrResponse))"
  have "trim ?j = ?j" if "?j = [] \<or> (\<not> is_space (hd ?j) \<and> \<not> is_space (last ?j))"
  proof (cases "?j = []")
    case True
    then show ?thesis by (simp add: trim_def)
  next
    case False
    with that show ?thesis by (intro trim_clean_ends) auto
  qed
  then show ?thesis
    by (simp add: performMistralOCR_success [OF assms] parse_results_markdown)
qed

text \<open>The example of the specification: the pages \<open>A\<close>, \<open>B\<close>, \<open>C\<close>.\<close>

theorem performMistralOCR_markdown_witness:
  "mistralApiKey (DEFAULT_SETTINGS\<lparr>mistralApiKey := str ''key''\<rparr>) \<noteq> [] \<and>
   snd (performMistralOCR (DEFAULT_SETTINGS\<lparr>mistralApiKey := str ''key''\<rparr>)
         (mock_sdk [\<lparr>page_markdown = Some (str ''A''), page_images = None\<rparr>,
                    \<lparr>page_markdown = Some (str ''B''), page_images = None\<rparr>,
                    \<lparr>page_markdown = Some (str ''C''), page_images = None\<rparr>])
         (str ''QUJD'') (str ''image/png'')) =
     Inr \<lparr>markdown = str ''A'' @ [nl, nl] @ str ''---'' @ [nl, nl] @ str ''B'' @
                      [nl, nl] @ str ''---'' @ [nl, nl] @ str ''C'',
          images = []\<rparr>"
proof -
  let ?st = "DEFAULT_SETTINGS\<lparr>mistralApiKey := str ''key''\<rparr>"
  let ?ps = "[\<lparr>page_markdown = Some (str ''A''), page_images = None\<rparr>,
              \<lparr>page_markdown = Some (str ''B''), page_images = None\<rparr>,
              \<lparr>page_markdown = Some (str ''C''), page_images = None\<rparr>]"
  have k: "mistralApiKey ?st \<noteq> []" by (simp add: str_def)
  have r: "parse_results ?st (Some \<lparr>pages = Some ?ps\<rparr>) =
     \<lparr>markdown = str ''A'' @ [nl, nl] @ str ''---'' @ [nl, nl] @ str ''B'' @
                      [nl, nl] @ str ''---'' @ [nl, nl] @ str ''C'',
          images = []\<rparr>"
    by (simp add: extraction_eval)
  have "snd (performMistralOCR ?st (mock_sdk ?ps) (str ''QUJD'') (str ''image/png'')) =
        Inr (parse_results ?st (Some \<lparr>pages = Some ?ps\<rparr>))"
    using performMistralOCR_markdown [of ?st "mock_sdk ?ps" "str ''QUJD''" "str ''QUJD''"
        "str ''image/png''" "str ''file-1''" "str ''https://signed''" "Some \<lparr>pages = Some ?ps\<rparr>"]
    by (simp add: mock_sdk_def str_def)
  with k r show ?thesis by simp
qed

text \<open>
  Claim C10. When the three remote calls succeed, every value of the image table
  returned is a non-empty text, and it is the payload of an image of the reply with
  that id: the payload itself, or, for a payload that starts with \<open>data:\<close>, the text
  after its first comma (up to a second comma, if there is one). An id whose images all
  have no payload (absent, empty, or a data URL without comma) is absent from the
  table. The ids of the table are distinct.
\<close>

theorem performMistralOCR_images:
  assumes "mistralApiKey st \<noteq> []"
    and "atob sdk base64Data = Inr bytes"
    and "files_upload sdk (upload_name sdk mimeType) bytes = Inr (Some fileId)"
    and "fileId \<noteq> []"
    and "files_getSignedUrl sdk fileId = Inr url"
    and "ocr_process sdk url (extractImages st) = Inr ocrResponse"
  shows "snd (performMistralOCR st sdk base64Data mimeType) = Inr (parse_results st ocrResponse) \<and>
     (\<forall>(k, v)\<in>set (images (parse_results st ocrResponse)).
        v \<noteq> [] \<and>
        (\<exists>img\<in>set (response_images ocrResponse). \<exists>b.
           img_id img = k \<and> imageBase64 img = Some b \<and>
           (if startsWith b (str ''data:'')
            then \<exists>a rest. b = a @ 44 # v @ rest \<and> 44 \<notin> set a \<and> 44 \<notin> set v
            else v = b))) \<and>
     (\<forall>k. (\<forall>img\<in>set (response_images ocrResponse). img_id img = k \<longrightarrow> no_payload img) \<longrightarrow>
          k \<notin> fst ` set (images (parse_results st ocrResponse))) \<and>
     distinct (map fst (images (parse_results st ocrResponse)))"
proof (intro conjI)
  show "snd (performMistralOCR st sdk base64Data mimeType) = Inr (parse_results st ocrResponse)"
    by (simp add: performMistralOCR_success [OF assms])
next
  show "\<forall>(k, v)\<in>set (images (parse_results st ocrResponse)).
        v \<noteq> [] \<and>
        (\<exists>img\<in>set (response_images ocrResponse). \<exists>b.
           img_id img = k \<and> imageBase64 img = Some b \<and>
           (if startsWith b (str ''data:'')
            then \<exists>a rest. b = a @ 44 # v @ rest \<and> 44 \<notin> set a \<and> 44 \<notin> set v
            else v = b))"
  proof (clarify, intro conjI)
    fix k v
    assume kv: "(k, v) \<in> set (images (parse_results st ocrResponse))"
    from parse_results_images [OF kv] obtain img where
      img: "img \<in> set (response_images ocrResponse)" "img_id img = k"
        "image_payload img = Some v" "v \<noteq> []"
      by blast
    show "v \<noteq> []" by fact
    from img(3,4) obtain b where b: "imageBase64 img = Some b"
      by (cases "imageBase64 img") (auto simp: image_payload_def startsWith_def str_def)
    have "if startsWith b (str ''data:'')
          then \<exists>a rest. b = a @ 44 # v @ rest \<and> 44 \<notin> set a \<and> 44 \<notin> set v
          else v = b"
    proof (cases "startsWith b (str ''data:'')")
      case True
      with img(3) b have "at_index (split b 44) (Suc 0) = Some v"
        by (simp add: image_payload_def)
      from split_second [OF this] True show ?thesis by auto
    next
      case False
      with img(3) b show ?thesis by (simp add: image_payload_def)
    qed
    with img(1,2) b
    show "\<exists>img\<in>set (response_images ocrResponse). \<exists>b.
           img_id img = k \<and> imageBase64 img = Some b \<and>
           (if startsWith b (str ''data:'')
            then \<exists>a rest. b = a @ 44 # v @ rest \<and> 44 \<notin> set a \<and> 44 \<notin> set v
            else v = b)"
      by blast
  qed
next
  show "\<forall>k. (\<forall>img\<in>set (response_images ocrResponse). img_id img = k \<longrightarrow> no_payload img) \<longrightarrow>
          k \<notin> fst ` set (images (parse_results st ocrResponse))"
  proof (intro allI impI notI)
    fix k
    assume none: "\<forall>img\<in>set (response_images ocrResponse). img_id img = k \<longrightarrow> no_payload img"
      and "k \<in> fst ` set (images (parse_results st ocrResponse))"
    then obtain v where "(k, v) \<in> set (images (parse_results st ocrResponse))" by auto
    from parse_results_images [OF this] obtain img where
      img: "img \<in> set (response_images ocrResponse)" "img_id img = k"
        "image_payload img = Some v" "v \<noteq> []"
      by blast
    with none have "no_payload img" by blast
    from no_payload_None [OF this] img(3,4) show False by auto
  qed
next
  show "distinct (map fst (images (parse_results st ocrResponse)))"
    by (rule parse_results_distinct)
qed

text \<open>
  The reply with five images: the table holds the first and the last, and the id of
  the data URL without comma is absent.
\<close>

theorem performMistralOCR_images_witness:
  "snd (performMistralOCR (DEFAULT_SETTINGS\<lparr>mistralApiKey := str ''key''\<rparr>)
         (mock_sdk five_images) (str ''QUJD'') (str ''image/png'')) =
     Inr \<lparr>markdown = str ''A'',
          images = [(str ''a'', str ''QUJD''), (str ''e'', str ''QUJD'')]\<rparr> \<and>
   str ''d'' \<notin> fst ` set (images (parse_results (DEFAULT_SETTINGS\<lparr>mistralApiKey := str ''key''\<rparr>)
                                   (Some \<lparr>pages = Some five_images\<rparr>)))"
proof -
  let ?st = "DEFAULT_SETTINGS\<lparr>mistralApiKey := str ''key''\<rparr>"
  let ?resp = "Some \<lparr>pages = Some five_images\<rparr>"
  have r: "parse_results ?st ?resp =
     \<lparr>markdown = str ''A'', images = [(str ''a'', str ''QUJD''), (str ''e'', str ''QUJD'')]\<rparr>"
    by (simp add: extraction_eval five_images_def)
  have d: "\<forall>img\<in>set (response_images ?resp). img_id img = str ''d'' \<longrightarrow> no_payload img"
    by (simp add: response_images_def response_pages_def five_images_def no_payload_def
        startsWith_def str_def)
  have "snd (performMistralOCR ?st (mock_sdk five_images) (str ''QUJD'') (str ''image/png'')) =
          Inr (parse_results ?st ?resp) \<and>
        str ''d'' \<notin> fst ` set (images (parse_results ?st ?resp))"
    using performMistralOCR_images [of ?st "mock_sdk five_images" "str ''QUJD''" "str ''QUJD''"
        "str ''image/png''" "str ''file-1''" "str ''https://signed''" ?resp] d
    by (simp add: mock_sdk_def str_def)
  then show ?thesis unfolding r by simp
qed

text \<open>
  Claim C2 as stated does not hold for \<open>performMistralOCR\<close>: for a reply without pages
  it returns a result whose markdown is empty.
\<close>

theorem performMistralOCR_empty_result:
  "performMistralOCR (DEFAULT_SETTINGS\<lparr>mistralApiKey := str ''key''\<rparr>) (mock_sdk [])
     (str ''QUJD'') (str ''image/png'') =
     ([FilesUpload (str ''upload-0.png''), FilesGetSignedUrl (str ''file-1''),
       OcrProcess (str ''https://signed'') True],
      Inr \<lparr>markdown = [], images = []\<rparr>)"
  by (simp add: extraction_eval)

section \<open>Properties of saving\<close>







section \<open>Claim about saving\<close>





section \<open>Properties of the parser\<close>

text \<open>
  A parser that succeeds has consumed input, so the tests on the lengths in
  \<open>parse_elements\<close> and \<open>parse_members\<close> never fail.
\<close>

lemma skip_ws_length: "skip_ws s = c # cs \<Longrightarrow> length cs < length s"
proof -
  assume a: "skip_ws s = c # cs"
  have "length (skip_ws s) \<le> length s" unfolding skip_ws_def by (rule length_dropWhile_le)
  with a show ?thesis by simp
qed

lemma parse_string_body_step:
  "parse_string_body acc (c # cs) = Some (t, r) \<Longrightarrow>
   r = cs \<or> (\<exists>acc' s'. length s' \<le> length cs \<and> parse_string_body acc' s' = Some (t, r))"
  apply (simp split: if_splits list.splits)
       apply (metis le_refl length_Cons le_SucI)+
  done

lemma parse_string_body_rest:
  "parse_string_body acc s = Some (t, r) \<Longrightarrow> length r < length s"
proof (induction "length s" arbitrary: s acc rule: less_induct)
  case less
  from less.prems obtain c cs where s: "s = c # cs" by (cases s) auto
  from parse_string_body_step [OF less.prems [unfolded s]] show ?case
  proof
    assume "r = cs"
    with s show ?thesis by simp
  next
    assume "\<exists>acc' s'. length s' \<le> length cs \<and> parse_string_body acc' s' = Some (t, r)"
    then obtain acc' s' where l: "length s' \<le> length cs"
      and p: "parse_string_body acc' s' = Some (t, r)" by blast
    from l s have "length s' < length s" by simp
    from less.hyps [OF this p] l s show ?thesis by simp
  qed
qed

lemma parse_fraction_rest: "parse_fraction s = Some (f, r) \<Longrightarrow> length r \<le> length s"
  by (auto simp: parse_fraction_def split: list.splits if_splits
      intro: le_trans [OF length_dropWhile_le])

lemma parse_exponent_rest: "parse_exponent s = Some (f, r) \<Longrightarrow> length r \<le> length s"
  by (auto simp: parse_exponent_def Let_def split: list.splits if_splits
      intro: le_trans [OF length_dropWhile_le])

lemma dropWhile_shorter:
  "takeWhile P s \<noteq> [] \<Longrightarrow> length (dropWhile P s) < length s"
  by (cases s) (auto simp: less_Suc_eq_le length_dropWhile_le split: if_splits)

lemma parse_number_rest: "parse_number s = Some (n, r) \<Longrightarrow> length r < length s"
proof -
  assume a: "parse_number s = Some (n, r)"
  define sign where "sign = (case s of [] \<Rightarrow> [] | c # r \<Rightarrow> if c = 45 then [c] else [])"
  define s1 where "s1 = drop (length sign) s"
  from a have d: "takeWhile is_digit s1 \<noteq> []"
    by (auto simp: parse_number_def Let_def sign_def s1_def split: if_splits)
  from a obtain frac s2 ex where
    f: "parse_fraction (dropWhile is_digit s1) = Some (frac, s2)" and
    e: "parse_exponent s2 = Some (ex, r)"
    by (auto simp: parse_number_def Let_def sign_def s1_def split: if_splits option.splits)
  have "length r \<le> length s2" using parse_exponent_rest [OF e] .
  also have "\<dots> \<le> length (dropWhile is_digit s1)" using parse_fraction_rest [OF f] .
  also have "\<dots> < length s1" using dropWhile_shorter [OF d] .
  also have "\<dots> \<le> length s" by (simp add: s1_def)
  finally show ?thesis .
qed

lemma parse_literal_rest: "parse_literal s = Some (v, r) \<Longrightarrow> length r < length s"
  by (cases s) (auto simp: parse_literal_def startsWith_def str_def split: if_splits)

lemma skip_ws_le: "length (skip_ws s) \<le> length s"
  unfolding skip_ws_def by (rule length_dropWhile_le)

lemma parse_elements_rest:
  "parse_elements s acc = Some (v, r) \<Longrightarrow> length r < length s"
proof (induction "length s" arbitrary: s acc rule: less_induct)
  case less
  from less.prems obtain w r' where pv: "parse_value s = Some (w, r')" and l: "length r' < length s"
    by (auto simp: parse_elements.simps [of s acc] split: option.splits if_splits)
  from less.prems pv l obtain c cs where sk: "skip_ws r' = c # cs"
    by (auto simp: parse_elements.simps [of s acc] split: list.splits)
  have lcs: "length cs < length s" using skip_ws_length [OF sk] l by simp
  from less.prems pv l sk
  have "(c = 44 \<and> parse_elements cs (acc @ [w]) = Some (v, r)) \<or> (c = 93 \<and> r = cs)"
    by (auto simp: parse_elements.simps [of s acc] split: if_splits)
  then show ?case
  proof
    assume "c = 44 \<and> parse_elements cs (acc @ [w]) = Some (v, r)"
    with less.hyps [OF lcs] have "length r < length cs" by blast
    with lcs show ?thesis by simp
  next
    assume "c = 93 \<and> r = cs"
    with lcs show ?thesis by simp
  qed
qed

lemma parse_members_rest:
  "parse_members s acc = Some (v, r) \<Longrightarrow> length r < length s"
proof (induction "length s" arbitrary: s acc rule: less_induct)
  case less
  from less.prems obtain c cs where sk: "skip_ws s = c # cs" and c: "c = 34"
    by (auto simp: parse_members.simps [of s acc] split: list.splits if_splits)
  from less.prems sk c obtain key r0 where ps: "parse_string_body [] cs = Some (key, r0)"
    by (auto simp: parse_members.simps [of s acc] split: option.splits)
  from less.prems sk c ps obtain d ds where sk2: "skip_ws r0 = d # ds"
    and d: "d = 58" "length ds < length s"
    by (auto simp: parse_members.simps [of s acc] split: list.splits if_splits)
  from less.prems sk c ps sk2 d obtain w r' where pv: "parse_value ds = Some (w, r')"
    and l: "length r' < length ds"
    by (auto simp: parse_members.simps [of s acc] split: option.splits if_splits)
  from less.prems sk c ps sk2 d pv l obtain e es where sk3: "skip_ws r' = e # es"
    by (auto simp: parse_members.simps [of s acc] split: list.splits)
  have les: "length es < length s" using skip_ws_length [OF sk3] l d(2) by simp
  from less.prems sk c ps sk2 d pv l sk3
  have "(e = 44 \<and> parse_members es (acc @ [(key, w)]) = Some (v, r)) \<or> (e = 125 \<and> r = es)"
    by (auto simp: parse_members.simps [of s acc] split: if_splits)
  then show ?case
  proof
    assume "e = 44 \<and> parse_members es (acc @ [(key, w)]) = Some (v, r)"
    with less.hyps [OF les] have "length r < length es" by blast
    with les show ?thesis by simp
  next
    assume "e = 125 \<and> r = es"
    with les show ?thesis by simp
  qed
qed

lemma parse_value_rest:
  "parse_value s = Some (v, r) \<Longrightarrow> length r < length s"
proof -
  assume a: "parse_value s = Some (v, r)"
  then obtain c cs where Cons: "skip_ws s = c # cs"
    by (auto simp: parse_value.simps [of s] split: list.splits)
  have len: "length cs < length s" using skip_ws_length [OF Cons] .
  consider (obj) "c = 123" | (arr) "c \<noteq> 123" "c = 91" | (strg) "c \<noteq> 123" "c \<noteq> 91" "c = 34"
    | (num) "c \<noteq> 123" "c \<noteq> 91" "c \<noteq> 34" "c = 45 \<or> is_digit c"
    | (lit) "c \<noteq> 123" "c \<noteq> 91" "c \<noteq> 34" "\<not> (c = 45 \<or> is_digit c)"
    by blast
  then show ?thesis
  proof cases
    case obj
    with a Cons obtain d ds where sk: "skip_ws cs = d # ds"
      and "(d = 125 \<and> r = ds) \<or> parse_members cs [] = Some (v, r)"
      by (auto simp: parse_value.simps [of s] split: list.splits if_splits)
    then show ?thesis
      using skip_ws_length [OF sk] parse_members_rest [of cs "[]" v r] len by auto
  next
    case arr
    with a Cons obtain d ds where sk: "skip_ws cs = d # ds"
      and "(d = 93 \<and> r = ds) \<or> parse_elements cs [] = Some (v, r)"
      by (auto simp: parse_value.simps [of s] split: list.splits if_splits)
    then show ?thesis
      using skip_ws_length [OF sk] parse_elements_rest [of cs "[]" v r] len by auto
  next
    case strg
    with a Cons obtain t where "parse_string_body [] cs = Some (t, r)"
      by (auto simp: parse_value.simps [of s] split: option.splits)
    from parse_string_body_rest [OF this] len show ?thesis by simp
  next
    case num
    with a Cons obtain n where "parse_number (c # cs) = Some (n, r)"
      by (auto simp: parse_value.simps [of s] split: option.splits)
    from parse_number_rest [OF this] skip_ws_le [of s] Cons show ?thesis by simp
  next
    case lit
    with a Cons have "parse_literal (c # cs) = Some (v, r)"
      by (auto simp: parse_value.simps [of s] split: option.splits)
    from parse_literal_rest [OF this] skip_ws_le [of s] Cons show ?thesis by simp
  qed
qed

text \<open>The equations of the two loops without the tests on the lengths.\<close>

lemma parse_elements_eq:
  "parse_elements s acc =
     (case parse_value s of
        None \<Rightarrow> None
      | Some (v, r) \<Rightarrow>
          (case skip_ws r of
             [] \<Rightarrow> None
           | c # cs \<Rightarrow>
               if c = 44 then parse_elements cs (acc @ [v])
               else if c = 93 then Some (JArray (acc @ [v]), cs)
               else None))"
  by (auto simp: parse_elements.simps [of s acc] split: option.splits dest: parse_value_rest)

lemma parse_members_eq:
  "parse_members s acc =
     (case skip_ws s of
        [] \<Rightarrow> None
      | c # cs \<Rightarrow>
          if c = 34 then
            (case parse_string_body [] cs of
               None \<Rightarrow> None
             | Some (key, r) \<Rightarrow>
                 (case skip_ws r of
                    [] \<Rightarrow> None
                  | d # ds \<Rightarrow>
                      if d = 58 then
                        (case parse_value ds of
                           None \<Rightarrow> None
                         | Some (v, r') \<Rightarrow>
                             (case skip_ws r' of
                                [] \<Rightarrow> None
                              | e # es \<Rightarrow>
                                  if e = 44 then parse_members es (acc @ [(key, v)])
                                  else if e = 125 then Some (JObject (acc @ [(key, v)]), es)
                                  else None))
                      else None))
          else None)"
proof -
  have "length ds < length s"
    if "skip_ws s = c # cs" "parse_string_body [] cs = Some (key, r)" "skip_ws r = d # ds"
    for c cs key r d ds
    using skip_ws_length [OF that(1)] parse_string_body_rest [OF that(2)]
      skip_ws_length [OF that(3)] by simp
  then show ?thesis
    by (auto simp: parse_members.simps [of s acc] split: option.splits list.splits
        dest: parse_value_rest)
qed

section \<open>Claims about formatting and the pipeline\<close>

lemmas json_eval =
  JSON_parse_def parse_value.simps parse_elements.simps parse_members.simps skip_ws_def
  json_ws_def is_digit_def is_hex_def hex_val_def parse_number_def parse_fraction_def
  parse_exponent_def parse_literal_def startsWith_def FormattedResponseSchema_parse_def
  json_get_def str_def Let_def

lemmas response_eval =
  formatText_response_def strip_wrappers_def think_re_def fence_json_re_def fence_re_def
  fence_end_re_def lit_def lit_i_def replace_at_start_def trim_def is_space_def
  is_line_terminator_def any_char_def

lemmas formatText_eval =
  formatText_def formatText_model_def formatText_fetcher_def localFetch_def
  mock_formatter_def DEFAULT_SETTINGS_def

text \<open>
  Claim C1 as stated does not hold: the fallback output is not canonicalized. The
  completion \<open>\( a \)\<close> is not JSON; \<open>formatText\<close> returns it as it is, while the
  canonicalizer would turn it into \<open>$a$\<close>.
\<close>

theorem formatText_fallback_verbatim:
  "snd (formatText (mock_formatter ([bsl, lparen] @ str '' a '' @ [bsl, rparen]))
         (DEFAULT_SETTINGS\<lparr>openRouterApiKey := str ''key''\<rparr>) (str ''raw'') None None) =
     Inr (Some ([bsl, lparen] @ str '' a '' @ [bsl, rparen])) \<and>
   cleanLatexDelimiters ([bsl, lparen] @ str '' a '' @ [bsl, rparen]) = str ''$a$''"
proof -
  have 1: "formatText_response ([bsl, lparen] @ str '' a '' @ [bsl, rparen]) =
     [bsl, lparen] @ str '' a '' @ [bsl, rparen]"
    by (simp add: response_eval json_eval)
  have 2: "cleanLatexDelimiters ([bsl, lparen] @ str '' a '' @ [bsl, rparen]) = str ''$a$''"
    by (simp add: canonicalizer_eval)
  have "snd (formatText (mock_formatter ([bsl, lparen] @ str '' a '' @ [bsl, rparen]))
         (DEFAULT_SETTINGS\<lparr>openRouterApiKey := str ''key''\<rparr>) (str ''raw'') None None) =
     Inr (Some (formatText_response ([bsl, lparen] @ str '' a '' @ [bsl, rparen])))"
    by (simp add: formatText_eval Let_def str_def)
  with 1 2 show ?thesis by simp
qed

text \<open>
  Claim C1, amended. When the fetcher answers with a completion text, \<open>formatText\<close>
  returns a text: no exception leaves the handling of the response and the result is
  not \<open>null\<close>. When \<open>JSON.parse\<close> or the validation of the stripped content fails,
  the result is the stripped content itself, not canonicalized; when both succeed, it
  is the canonicalized \<open>formatted_markdown\<close>.
\<close>

theorem formatText_response_never_fails:
  "(fst (formatText env st rawText modelOverride customInstruction) = Some request \<and>
    formatText_fetcher env st request = Inr content \<longrightarrow>
      snd (formatText env st rawText modelOverride customInstruction) =
        Inr (Some (formatText_response content))) \<and>
   (JSON_parse (strip_wrappers content) = Inl e \<longrightarrow>
      formatText_response content = strip_wrappers content) \<and>
   (JSON_parse (strip_wrappers content) = Inr parsedJson \<and>
    FormattedResponseSchema_parse parsedJson = Inl e \<longrightarrow>
      formatText_response content = strip_wrappers content) \<and>
   (JSON_parse (strip_wrappers content) = Inr parsedJson \<and>
    FormattedResponseSchema_parse parsedJson = Inr result \<longrightarrow>
      formatText_response content = cleanLatexDelimiters (formatted_markdown result))"
  by (auto simp: formatText_def formatText_response_def Let_def split: sum.splits)

text \<open>
  The examples of the specification: a valid completion, with think block and code
  fence, and a completion in plain prose.
\<close>

theorem formatText_response_never_fails_witness:
  "formatText_response
     (str ''<think>scratch</think>```json'' @ [nl] @ str ''{'' @ [34] @
      str ''formatted_markdown'' @ [34] @ str '': '' @ [34] @ str ''# Title'' @ [bsl] @
      str ''nBody'' @ [34] @ str '', '' @ [34] @ str ''confidence_score'' @ [34] @
      str '': 0.9}'' @ [nl] @ str ''```'') = str ''# Title'' @ [nl] @ str ''Body'' \<and>
   formatText_response (str ''plain prose'') = str ''plain prose'' \<and>
   snd (formatText (mock_formatter (str ''plain prose''))
         (DEFAULT_SETTINGS\<lparr>openRouterApiKey := str ''key''\<rparr>) (str ''raw'') None None) =
     Inr (Some (str ''plain prose''))"
proof -
  let ?valid = "str ''<think>scratch</think>```json'' @ [nl] @ str ''{'' @ [34] @
      str ''formatted_markdown'' @ [34] @ str '': '' @ [34] @ str ''# Title'' @ [bsl] @
      str ''nBody'' @ [34] @ str '', '' @ [34] @ str ''confidence_score'' @ [34] @
      str '': 0.9}'' @ [nl] @ str ''```''"
  let ?json = "JObject [(str ''formatted_markdown'', JString (str ''# Title'' @ [nl] @ str ''Body'')),
                        (str ''confidence_score'', JNumber (str ''0.9''))]"
  let ?st = "DEFAULT_SETTINGS\<lparr>openRouterApiKey := str ''key''\<rparr>"
  have s1: "strip_wrappers ?valid = str ''{'' @ [34] @
      str ''formatted_markdown'' @ [34] @ str '': '' @ [34] @ str ''# Title'' @ [bsl] @
      str ''nBody'' @ [34] @ str '', '' @ [34] @ str ''confidence_score'' @ [34] @
      str '': 0.9}'' @ [nl]"
    by (simp add: response_eval str_def)
  have p1: "JSON_parse (strip_wrappers ?valid) = Inr ?json"
    unfolding s1 by (simp add: json_eval)
  have v1: "FormattedResponseSchema_parse ?json =
      Inr \<lparr>formatted_markdown = str ''# Title'' @ [nl] @ str ''Body'',
           confidence_score = Some (str ''0.9'')\<rparr>"
    by (simp add: json_eval)
  have c1: "cleanLatexDelimiters (str ''# Title'' @ [nl] @ str ''Body'') =
      str ''# Title'' @ [nl] @ str ''Body''"
    by (simp add: canonicalizer_eval)
  have s2: "strip_wrappers (str ''plain prose'') = str ''plain prose''"
    by (simp add: response_eval str_def)
  have p2: "JSON_parse (strip_wrappers (str ''plain prose'')) = Inl (Error (str ''SyntaxError''))"
    unfolding s2 by (simp add: json_eval)
  have r: "fst (formatText (mock_formatter (str ''plain prose'')) ?st (str ''raw'') None None) =
      Some \<lparr>req_model = openRouterModel ?st, req_system = system_prompt None None,
            req_user = str ''Format the following OCR text. Language: '' @ language ?st @
                       str ''.'' @ [nl, nl] @ str ''---'' @ [nl] @ str ''raw'' @ [nl] @ str ''---''\<rparr>"
    by (simp add: formatText_eval Let_def)
  have f: "formatText_fetcher (mock_formatter (str ''plain prose'')) ?st q = Inr (str ''plain prose'')" for q
    by (simp add: formatText_eval str_def)
  note t = formatText_response_never_fails
  from t [of "mock_formatter (str ''plain prose'')" ?st "str ''raw''" None None _ "str ''plain prose''",
          THEN conjunct1] r f
  have a: "snd (formatText (mock_formatter (str ''plain prose'')) ?st (str ''raw'') None None) =
     Inr (Some (formatText_response (str ''plain prose'')))"
    by simp
  from t [where content = "str ''plain prose''" and e = "Error (str ''SyntaxError'')",
          THEN conjunct2, THEN conjunct1] p2 s2
  have b: "formatText_response (str ''plain prose'') = str ''plain prose''" by simp
  from t [where content = ?valid and parsedJson = ?json, THEN conjunct2, THEN conjunct2, THEN conjunct2]
    p1 v1 c1
  have c: "formatText_response ?valid = str ''# Title'' @ [nl] @ str ''Body''" by simp
  from a b c show ?thesis by simp
qed

text \<open>
  Claim C7: the model of the request that \<open>formatText\<close> gives to the fetcher. When
  reading the preset does not throw, \<open>formatText\<close> issues a request, and the model of
  this request is
  \<^item> the override, when one is given (a non-empty string), whether the provider plugin
    is present or not;
  \<^item> the model of the provider plugin, when no override is given (it is absent, or the
    empty string, which \<open>||\<close> treats alike) and the plugin is present;
  \<^item> the model of the settings, when no override is given and there is no plugin.
\<close>

theorem formatText_model_precedence:
  assumes "getPresetContent env
             (if currentPreset env = [] then defaultPreset st else currentPreset env) = Inr preset"
  shows "(m \<noteq> [] \<longrightarrow>
       map_option req_model (fst (formatText env st rawText (Some m) customInstruction)) =
         Some m) \<and>
     (getProvider env = Some provider \<longrightarrow>
       map_option req_model (fst (formatText env st rawText None customInstruction)) =
         Some (getModel provider) \<and>
       map_option req_model (fst (formatText env st rawText (Some []) customInstruction)) =
         Some (getModel provider)) \<and>
     (getProvider env = None \<longrightarrow>
       map_option req_model (fst (formatText env st rawText None customInstruction)) =
         Some (openRouterModel st) \<and>
       map_option req_model (fst (formatText env st rawText (Some []) customInstruction)) =
         Some (openRouterModel st))"
  using assms by (auto simp: formatText_def formatText_model_def Let_def split: option.splits)

text \<open>
  The three combinations, each as a run of \<open>formatText\<close>: an override with the plugin
  present, no override with the plugin, no override without plugin.
\<close>

theorem formatText_model_precedence_witness:
  "map_option req_model
     (fst (formatText ((mock_formatter [])\<lparr>getProvider := Some mock_provider\<rparr>) DEFAULT_SETTINGS
             (str ''raw'') (Some (str ''my/model'')) None)) = Some (str ''my/model'') \<and>
   map_option req_model
     (fst (formatText ((mock_formatter [])\<lparr>getProvider := Some mock_provider\<rparr>) DEFAULT_SETTINGS
             (str ''raw'') None None)) = Some (str ''provider/model'') \<and>
   map_option req_model
     (fst (formatText (mock_formatter []) DEFAULT_SETTINGS (str ''raw'') None None)) =
     Some (str ''google/gemini-2.0-flash-exp:free'')"
proof -
  let ?env = "(mock_formatter [])\<lparr>getProvider := Some mock_provider\<rparr>"
  have p: "getPresetContent ?env
             (if currentPreset ?env = [] then defaultPreset DEFAULT_SETTINGS else currentPreset ?env) =
           Inr None"
    by (simp add: mock_formatter_def)
  have q: "getPresetContent (mock_formatter [])
             (if currentPreset (mock_formatter []) = [] then defaultPreset DEFAULT_SETTINGS
              else currentPreset (mock_formatter [])) = Inr None"
    by (simp add: mock_formatter_def)
  have m: "str ''my/model'' \<noteq> []" by (simp add: str_def)
  have g: "getProvider ?env = Some mock_provider" "getProvider (mock_formatter []) = None"
    by (simp_all add: mock_formatter_def)
  have 1: "map_option req_model
     (fst (formatText ?env DEFAULT_SETTINGS (str ''raw'') (Some (str ''my/model'')) None)) =
     Some (str ''my/model'')"
    using formatText_model_precedence [OF p, of "str ''my/model''" "str ''raw''" None,
        THEN conjunct1] m
    by blast
  have "map_option req_model (fst (formatText ?env DEFAULT_SETTINGS (str ''raw'') None None)) =
     Some (getModel mock_provider)"
    using formatText_model_precedence [OF p, of _ "str ''raw''" None mock_provider,
        THEN conjunct2, THEN conjunct1] g(1)
    by blast
  then have 2: "map_option req_model (fst (formatText ?env DEFAULT_SETTINGS (str ''raw'') None None)) =
     Some (str ''provider/model'')"
    by (simp add: mock_provider_def)
  have "map_option req_model
     (fst (formatText (mock_formatter []) DEFAULT_SETTINGS (str ''raw'') None None)) =
     Some (openRouterModel DEFAULT_SETTINGS)"
    using formatText_model_precedence [OF q, of _ "str ''raw''" None,
        THEN conjunct2, THEN conjunct2] g(2)
    by blast
  then have 3: "map_option req_model
     (fst (formatText (mock_formatter []) DEFAULT_SETTINGS (str ''raw'') None None)) =
     Some (str ''google/gemini-2.0-flash-exp:free'')"
    by (simp add: DEFAULT_SETTINGS_def)
  from 1 2 3 show ?thesis by blast
qed

text \<open>
  Claim C2, amended. The check for an empty result is made by \<open>processImage\<close>, not by
  \<open>performMistralOCR\<close>. When the three remote calls succeed and the join of the page
  texts is empty after trimming, \<open>performMistralOCR\<close> returns a result with the empty
  markdown, and \<open>processImage\<close> throws "Empty OCR Result" in its \<open>try\<close> block
  before any image is saved and before any formatting request, and returns \<open>null\<close>.
  A run of \<open>processImage\<close> that reaches the formatter had a result with a markdown
  that is not empty.
\<close>

theorem processImage_empty_result:
  "(mistralApiKey st \<noteq> [] \<and> atob sdk base64Data = Inr bytes \<and>
    files_upload sdk (upload_name sdk mimeType) bytes = Inr (Some fileId) \<and> fileId \<noteq> [] \<and>
    files_getSignedUrl sdk fileId = Inr url \<and>
    ocr_process sdk url (extractImages st) = Inr ocrResponse \<and>
    trim (join_pages (map page_text (response_pages ocrResponse))) = [] \<longrightarrow>
      snd (performMistralOCR st sdk base64Data mimeType) = Inr (parse_results st ocrResponse) \<and>
      markdown (parse_results st ocrResponse) = [] \<and>
      outcome (processImage_try sdk api env st v activePath base64Data mimeType
                 modelOverride customInstruction) = Inl (Error (str ''Empty OCR Result'')) \<and>
      vault_after (processImage_try sdk api env st v activePath base64Data mimeType
                     modelOverride customInstruction) = v \<and>
      fetch_request (processImage_try sdk api env st v activePath base64Data mimeType
                       modelOverride customInstruction) = None \<and>
      processImage sdk api env st v activePath base64Data mimeType
        modelOverride customInstruction = None) \<and>
   (fetch_request (processImage_try sdk api env st v activePath base64Data mimeType
                     modelOverride customInstruction) = Some request \<longrightarrow>
      (\<exists>r. snd (performMistralOCR st sdk base64Data mimeType) = Inr r \<and> markdown r \<noteq> []))"
proof (intro conjI impI)
  assume a: "mistralApiKey st \<noteq> [] \<and> atob sdk base64Data = Inr bytes \<and>
    files_upload sdk (upload_name sdk mimeType) bytes = Inr (Some fileId) \<and> fileId \<noteq> [] \<and>
    files_getSignedUrl sdk fileId = Inr url \<and>
    ocr_process sdk url (extractImages st) = Inr ocrResponse \<and>
    trim (join_pages (map page_text (response_pages ocrResponse))) = []"
  then have run: "performMistralOCR st sdk base64Data mimeType =
           ([FilesUpload (upload_name sdk mimeType), FilesGetSignedUrl fileId,
             OcrProcess url (extractImages st)],
            Inr (parse_results st ocrResponse))"
    by (elim conjE) (rule performMistralOCR_success; assumption)
  from a have empty: "markdown (parse_results st ocrResponse) = []"
    by (simp add: parse_results_markdown)
  show "snd (performMistralOCR st sdk base64Data mimeType) = Inr (parse_results st ocrResponse)"
    by (simp add: run)
  show "markdown (parse_results st ocrResponse) = []" by fact
  show "outcome (processImage_try sdk api env st v activePath base64Data mimeType
                 modelOverride customInstruction) = Inl (Error (str ''Empty OCR Result''))"
    by (simp add: processImage_try_def run empty)
  then show "processImage sdk api env st v activePath base64Data mimeType
        modelOverride customInstruction = None"
    by (simp add: processImage_def)
  show "vault_after (processImage_try sdk api env st v activePath base64Data mimeType
                     modelOverride customInstruction) = v"
    by (simp add: processImage_try_def run empty)
  show "fetch_request (processImage_try sdk api env st v activePath base64Data mimeType
                       modelOverride customInstruction) = None"
    by (simp add: processImage_try_def run empty)
next
  assume "fetch_request (processImage_try sdk api env st v activePath base64Data mimeType
                     modelOverride customInstruction) = Some request"
  then show "\<exists>r. snd (performMistralOCR st sdk base64Data mimeType) = Inr r \<and> markdown r \<noteq> []"
    by (auto simp: processImage_try_def split: prod.splits sum.splits if_splits)
qed

text \<open>
  A reply without pages: the extraction returns the empty markdown, the pipeline
  throws. A reply with the page \<open>A\<close>: the pipeline reaches the formatter.
\<close>

theorem processImage_empty_result_witness:
  "outcome (processImage_try (mock_sdk []) mock_vault (mock_formatter (str ''plain prose''))
              (DEFAULT_SETTINGS\<lparr>mistralApiKey := str ''key'', openRouterApiKey := str ''key''\<rparr>)
              [] None (str ''QUJD'') (str ''image/png'') None None) =
     Inl (Error (str ''Empty OCR Result'')) \<and>
   processImage (mock_sdk []) mock_vault (mock_formatter (str ''plain prose''))
     (DEFAULT_SETTINGS\<lparr>mistralApiKey := str ''key'', openRouterApiKey := str ''key''\<rparr>)
     [] None (str ''QUJD'') (str ''image/png'') None None = None \<and>
   (\<exists>r. snd (performMistralOCR
               (DEFAULT_SETTINGS\<lparr>mistralApiKey := str ''key'', openRouterApiKey := str ''key''\<rparr>)
               (mock_sdk [\<lparr>page_markdown = Some (str ''A''), page_images = None\<rparr>])
               (str ''QUJD'') (str ''image/png'')) = Inr r \<and> markdown r \<noteq> [])"
proof -
  let ?st = "DEFAULT_SETTINGS\<lparr>mistralApiKey := str ''key'', openRouterApiKey := str ''key''\<rparr>"
  let ?env = "mock_formatter (str ''plain prose'')"
  let ?pageA = "[\<lparr>page_markdown = Some (str ''A''), page_images = None\<rparr>]"
  note t = processImage_empty_result
  have e: "trim (join_pages (map page_text (response_pages (Some \<lparr>pages = Some []\<rparr>)))) = []"
    by (simp add: response_pages_def trim_def)
  from t [of ?st "mock_sdk []" "str ''QUJD''" "str ''QUJD''" "str ''image/png''" "str ''file-1''"
            "str ''https://signed''" "Some \<lparr>pages = Some []\<rparr>" mock_vault ?env "[]" None None None,
          THEN conjunct1] e
  have 1: "outcome (processImage_try (mock_sdk []) mock_vault ?env ?st
              [] None (str ''QUJD'') (str ''image/png'') None None) =
     Inl (Error (str ''Empty OCR Result'')) \<and>
     processImage (mock_sdk []) mock_vault ?env ?st
       [] None (str ''QUJD'') (str ''image/png'') None None = None"
    by (simp add: mock_sdk_def DEFAULT_SETTINGS_def str_def)
  have "\<exists>request. fetch_request (processImage_try (mock_sdk ?pageA) mock_vault ?env ?st
              [] None (str ''QUJD'') (str ''image/png'') None None) = Some request"
    by (simp add: processImage_try_def extraction_eval formatText_def mock_formatter_def
        Object_keys_Nil)
  then obtain request where "fetch_request (processImage_try (mock_sdk ?pageA) mock_vault ?env ?st
              [] None (str ''QUJD'') (str ''image/png'') None None) = Some request" ..
  from t [of ?st "mock_sdk ?pageA" "str ''QUJD''" _ "str ''image/png''" _ _ _ mock_vault ?env "[]"
            None None None request, THEN conjunct2] this
  have 2: "\<exists>r. snd (performMistralOCR ?st (mock_sdk ?pageA) (str ''QUJD'') (str ''image/png'')) = Inr r \<and>
             markdown r \<noteq> []"
    by blast
  from 1 2 show ?thesis by blast
qed

end
